theory Spec2Isabelle
  imports Complex_Main
begin

section \<open>Data model of \<open>polygon_index.py\<close>\<close>

text \<open>
  A record handed to the index is a Python dictionary. It is modelled as a map from field
  names to values of an arbitrary type \<open>'v\<close>: the index reads the fields \<open>file\<close> and
  \<open>polygon\<close> and carries every other field along unchanged.
\<close>

type_synonym 'v data = "string \<rightharpoonup> 'v"

datatype error = RuntimeError string | KeyError

text \<open>An item of the R-tree: the node identifier, the bounding box and the pickled object.\<close>

record ('v, 'b) entry =
  e_id :: int
  e_bbox :: 'b
  e_object :: "'v data"

text \<open>
  The state of a \<open>Polygon_File_Index\<close>: the dictionary \<open>self._polygons\<close> and the tree
  \<open>self._rtree\<close>. The tree is the list of its items, in the order of insertion.
\<close>

record ('v, 'p, 'b) index =
  polygons :: "'v \<rightharpoonup> 'p"
  rtree :: "('v, 'b) entry list"

text \<open>One element of the JSON array that \<open>save\<close> writes and \<open>load\<close> reads.\<close>

record ('v, 'b) persisted =
  p_id :: "int option"
  p_bbox :: "'b option"
  p_object :: "'v data option"

section \<open>The libraries the index calls\<close>

text \<open>
  The geometry library (shapely), the digest (hashlib) and the box predicates of the tree
  library are not part of the repository. They are parameters of the model: every function
  of the index takes the record \<open>C\<close> of them, and every general theorem holds for
  any choice of them. \<open>'p\<close> is the type of polygons, \<open>'b\<close> of bounding boxes, \<open>'pt\<close> of
  query points and \<open>'g\<close> of the geometries an intersection returns.
\<close>

record ('v, 'p, 'b, 'pt, 'g) collaborators =
  md5_int :: "'v \<Rightarrow> int"
  Polygon :: "'v \<Rightarrow> 'p"
  bounds :: "'p \<Rightarrow> 'b"
  almost_equals :: "'p \<Rightarrow> 'p \<Rightarrow> bool"
  intersects_Point :: "'p \<Rightarrow> 'pt \<Rightarrow> bool"
  intersection :: "'p \<Rightarrow> 'p \<Rightarrow> 'g"
  geom_is_empty :: "'g \<Rightarrow> bool"
  is_Polygon :: "'g \<Rightarrow> bool"
  exterior_coords :: "'g \<Rightarrow> 'v"
  box_overlaps :: "'b \<Rightarrow> 'b \<Rightarrow> bool"
  box_hull :: "'b list \<Rightarrow> 'b"
  box_dist :: "'pt \<Rightarrow> 'b \<Rightarrow> rat"

text \<open>\<open>hash_string\<close>: the MD5 digest of the UTF-8 bytes, read as a hexadecimal number.\<close>

definition hash_string :: "('v, 'p, 'b, 'pt, 'g) collaborators \<Rightarrow> 'v \<Rightarrow> int" where
  "hash_string C string = md5_int C string"

subsection \<open>The R-tree\<close>

text \<open>
  Modelled from the spec: the bounding-box tree (the rtree library) is an external
  collaborator, of which the specification fixes the contract only. The tree is the list
  of the items inserted and not deleted; \<open>insert\<close> adds an item (identifiers may repeat),
  \<open>delete\<close> removes one item with the given identifier and box, \<open>intersection\<close> returns
  the items whose box overlaps the query box, \<open>nearest\<close> the \<open>k\<close> items closest to the
  point together with every item as close as the last of them, \<open>get_size\<close> the number of
  items and \<open>bounds\<close> the box around all of them.
\<close>

definition rtree_insert ::
  "('v, 'b) entry list \<Rightarrow> int \<Rightarrow> 'b \<Rightarrow> 'v data \<Rightarrow> ('v, 'b) entry list" where
  "rtree_insert t i b obj = t @ [\<lparr>e_id = i, e_bbox = b, e_object = obj\<rparr>]"

fun rtree_delete :: "('v, 'b) entry list \<Rightarrow> int \<Rightarrow> 'b \<Rightarrow> ('v, 'b) entry list" where
  "rtree_delete [] i b = []"
| "rtree_delete (e # t) i b =
     (if e_id e = i \<and> e_bbox e = b then t else e # rtree_delete t i b)"

definition rtree_get_size :: "('v, 'b) entry list \<Rightarrow> nat" where
  "rtree_get_size t = length t"

definition rtree_bounds ::
  "('v, 'p, 'b, 'pt, 'g) collaborators \<Rightarrow> ('v, 'b) entry list \<Rightarrow> 'b" where
  "rtree_bounds C t = box_hull C (map e_bbox t)"

definition rtree_intersection ::
  "('v, 'p, 'b, 'pt, 'g) collaborators \<Rightarrow> ('v, 'b) entry list \<Rightarrow> 'b \<Rightarrow> ('v, 'b) entry list" where
  "rtree_intersection C t q = filter (\<lambda>e. box_overlaps C (e_bbox e) q) t"

definition rtree_nearest ::
  "('v, 'p, 'b, 'pt, 'g) collaborators \<Rightarrow> ('v, 'b) entry list \<Rightarrow> 'pt \<Rightarrow> nat
    \<Rightarrow> ('v, 'b) entry list" where
  "rtree_nearest C t p k =
     (let ds = sort (map (\<lambda>e. box_dist C p (e_bbox e)) t) in
      if k = 0 then []
      else if length ds \<le> k then t
      else filter (\<lambda>e. box_dist C p (e_bbox e) \<le> ds ! (k - 1)) t)"

section \<open>The index\<close>

definition Polygon_File_Index_init :: "('v, 'p, 'b) index" where
  "Polygon_File_Index_init = \<lparr>polygons = Map.empty, rtree = []\<rparr>"

definition check_data :: "'v data \<Rightarrow> error + unit" where
  "check_data data =
     (if data ''file'' = None
        then Inl (RuntimeError (CHR 0x27 # ''file'' @ CHR 0x27 # '' not in data''))
      else if data ''polygon'' = None
        then Inl (RuntimeError (CHR 0x27 # ''polygon'' @ CHR 0x27 # '' not in data''))
      else Inr ())"

text \<open>
  A method returns what it raised or returned, and the state it left behind: an exception
  does not undo the assignments made before it.
\<close>

definition insert_idx ::
  "('v, 'p, 'b, 'pt, 'g) collaborators \<Rightarrow> ('v, 'p, 'b) index \<Rightarrow> 'v data
    \<Rightarrow> (error + unit) \<times> ('v, 'p, 'b) index" where
  "insert_idx C self data =
     (case check_data data of
        Inl e \<Rightarrow> (Inl e, self)
      | Inr _ \<Rightarrow>
          (case (data ''file'', data ''polygon'') of
             (Some file, Some coords) \<Rightarrow>
               if polygons self file \<noteq> None then (Inr (), self)
               else
                 let pl = Polygon C coords in
                 (Inr (),
                  self\<lparr>polygons := (polygons self)(file \<mapsto> pl),
                       rtree := rtree_insert (rtree self) (hash_string C file) (bounds C pl) data\<rparr>)
           | _ \<Rightarrow> (Inl KeyError, self)))"

definition update ::
  "('v, 'p, 'b, 'pt, 'g) collaborators \<Rightarrow> ('v, 'p, 'b) index \<Rightarrow> 'v data
    \<Rightarrow> (error + bool) \<times> ('v, 'p, 'b) index" where
  "update C self data =
     (case check_data data of
        Inl e \<Rightarrow> (Inl e, self)
      | Inr _ \<Rightarrow>
          (case (data ''file'', data ''polygon'') of
             (Some file, Some coords) \<Rightarrow>
               (case polygons self file of
                  None \<Rightarrow>
                    (case insert_idx C self data of
                       (Inl e, s) \<Rightarrow> (Inl e, s)
                     | (Inr _, s) \<Rightarrow> (Inr True, s))
                | Some pl \<Rightarrow>
                    if almost_equals C pl (Polygon C coords) then (Inr False, self)
                    else
                      let s1 = self\<lparr>rtree :=
                                 rtree_delete (rtree self) (hash_string C file) (bounds C pl)\<rparr>;
                          s2 = s1\<lparr>polygons := (polygons s1)(file := None)\<rparr>
                      in (case insert_idx C s2 data of
                            (Inl e, s) \<Rightarrow> (Inl e, s)
                          | (Inr _, s) \<Rightarrow> (Inr True, s)))
           | _ \<Rightarrow> (Inl KeyError, self)))"

definition size_idx :: "('v, 'p, 'b) index \<Rightarrow> nat" where
  "size_idx self = rtree_get_size (rtree self)"

text \<open>
  \<open>nearest\<close> is a generator: it yields while it runs, and an exception ends it after the
  records already yielded. The result is the list of yielded records and the exception,
  if any. The tree returns copies of the stored objects (\<open>objects='raw'\<close>).
\<close>

fun nearest_loop ::
  "('v, 'p, 'b, 'pt, 'g) collaborators \<Rightarrow> ('v, 'p, 'b) index \<Rightarrow> 'pt \<Rightarrow> 'v data list
    \<Rightarrow> 'v data list \<times> error option" where
  "nearest_loop C self point [] = ([], None)"
| "nearest_loop C self point (data # rest) =
     (case data ''file'' of
        None \<Rightarrow> ([], Some KeyError)
      | Some file \<Rightarrow>
          (case polygons self file of
             None \<Rightarrow> ([], Some KeyError)
           | Some pl \<Rightarrow>
               if intersects_Point C pl point
               then (case nearest_loop C self point rest of (ys, err) \<Rightarrow> (data # ys, err))
               else nearest_loop C self point rest))"

definition nearest ::
  "('v, 'p, 'b, 'pt, 'g) collaborators \<Rightarrow> ('v, 'p, 'b) index \<Rightarrow> 'pt
    \<Rightarrow> 'v data list \<times> error option" where
  "nearest C self point =
     nearest_loop C self point (map e_object (rtree_nearest C (rtree self) point 1))"

text \<open>
  \<open>intersect\<close> builds a new index and leaves \<open>self\<close> as it is: the objects it changes
  are the copies the tree returned.
\<close>

fun intersect_loop ::
  "('v, 'p, 'b, 'pt, 'g) collaborators \<Rightarrow> ('v, 'p, 'b) index \<Rightarrow> 'p \<Rightarrow> 'v data list
    \<Rightarrow> ('v, 'p, 'b) index \<Rightarrow> error + ('v, 'p, 'b) index" where
  "intersect_loop C self polygon [] res = Inr res"
| "intersect_loop C self polygon (data # rest) res =
     (case data ''file'' of
        None \<Rightarrow> Inl KeyError
      | Some file \<Rightarrow>
          (case polygons self file of
             None \<Rightarrow> Inl KeyError
           | Some pl \<Rightarrow>
               let schnitt = intersection C polygon pl in
               if geom_is_empty C schnitt \<or> \<not> is_Polygon C schnitt
               then intersect_loop C self polygon rest res
               else
                 let new_data = data(''polygon'' \<mapsto> exterior_coords C schnitt) in
                 (case insert_idx C res new_data of
                    (Inl e, _) \<Rightarrow> Inl e
                  | (Inr _, res') \<Rightarrow> intersect_loop C self polygon rest res')))"

definition intersect ::
  "('v, 'p, 'b, 'pt, 'g) collaborators \<Rightarrow> ('v, 'p, 'b) index \<Rightarrow> 'v
    \<Rightarrow> error + ('v, 'p, 'b) index" where
  "intersect C self polygon =
     (let res = Polygon_File_Index_init;
          polygon = Polygon C polygon
      in if rtree_get_size (rtree self) = 0 then Inr res
         else intersect_loop C self polygon
                (map e_object (rtree_intersection C (rtree self) (bounds C polygon))) res)"

text \<open>
  \<open>save\<close> returns the array it hands to \<open>json.dump\<close>, and \<open>load\<close> takes the array
  \<open>json.load\<close> returns; writing an array and reading it back gives the array again.
  In \<open>load\<close> the bare \<open>except\<close> around \<open>_check_data(x['object'])\<close> also catches the
  missing \<open>object\<close>; a missing \<open>id\<close> or \<open>bbox\<close> of an entry it accepted is raised.
\<close>

definition save ::
  "('v, 'p, 'b, 'pt, 'g) collaborators \<Rightarrow> ('v, 'p, 'b) index \<Rightarrow> ('v, 'b) persisted list" where
  "save C self =
     map (\<lambda>x. \<lparr>p_id = Some (e_id x), p_bbox = Some (e_bbox x), p_object = Some (e_object x)\<rparr>)
       (rtree_intersection C (rtree self) (rtree_bounds C (rtree self)))"

fun load ::
  "('v, 'p, 'b, 'pt, 'g) collaborators \<Rightarrow> ('v, 'p, 'b) index \<Rightarrow> ('v, 'b) persisted list
    \<Rightarrow> (error + unit) \<times> ('v, 'p, 'b) index" where
  "load C self [] = (Inr (), self)"
| "load C self (x # xs) =
     (case p_object x of
        None \<Rightarrow> load C self xs
      | Some obj \<Rightarrow>
          (case check_data obj of
             Inl _ \<Rightarrow> load C self xs
           | Inr _ \<Rightarrow>
               (case (p_id x, p_bbox x) of
                  (Some i, Some b) \<Rightarrow>
                    let s1 = self\<lparr>rtree := rtree_insert (rtree self) i b obj\<rparr> in
                    (case (obj ''file'', obj ''polygon'') of
                       (Some file, Some coords) \<Rightarrow>
                         load C (s1\<lparr>polygons := (polygons s1)(file \<mapsto> Polygon C coords)\<rparr>) xs
                     | _ \<Rightarrow> (Inl KeyError, s1))
                | _ \<Rightarrow> (Inl KeyError, self))))"

section \<open>Sequences of calls\<close>

datatype 'v call = Insert "'v data" | Update "'v data"

fun call_data :: "'v call \<Rightarrow> 'v data" where
  "call_data (Insert d) = d"
| "call_data (Update d) = d"

fun apply_call ::
  "('v, 'p, 'b, 'pt, 'g) collaborators \<Rightarrow> ('v, 'p, 'b) index \<Rightarrow> 'v call
    \<Rightarrow> (error + unit) \<times> ('v, 'p, 'b) index" where
  "apply_call C self (Insert d) = insert_idx C self d"
| "apply_call C self (Update d) =
     (case update C self d of (Inl e, s) \<Rightarrow> (Inl e, s) | (Inr _, s) \<Rightarrow> (Inr (), s))"

text \<open>The calls are made in order; the first exception ends the sequence.\<close>

fun run ::
  "('v, 'p, 'b, 'pt, 'g) collaborators \<Rightarrow> ('v, 'p, 'b) index \<Rightarrow> 'v call list
    \<Rightarrow> (error + unit) \<times> ('v, 'p, 'b) index" where
  "run C self [] = (Inr (), self)"
| "run C self (c # cs) =
     (case apply_call C self c of
        (Inl e, s) \<Rightarrow> (Inl e, s)
      | (Inr _, s) \<Rightarrow> run C s cs)"

section \<open>The invariant of the index\<close>

definition key_of :: "('v, 'b) entry \<Rightarrow> 'v option" where
  "key_of e = e_object e ''file''"

text \<open>
  An entry of the tree agrees with the registry when its object has both fields, the
  registry holds the polygon built from the object's coordinates under the object's key,
  and the entry's box and identifier are that polygon's bounds and that key's hash.
\<close>

definition entry_ok ::
  "('v, 'p, 'b, 'pt, 'g) collaborators \<Rightarrow> ('v, 'p, 'b) index \<Rightarrow> ('v, 'b) entry \<Rightarrow> bool" where
  "entry_ok C self e =
     (case (e_object e ''file'', e_object e ''polygon'') of
        (Some file, Some coords) \<Rightarrow>
          polygons self file = Some (Polygon C coords) \<and>
          e_bbox e = bounds C (Polygon C coords) \<and>
          e_id e = hash_string C file
      | _ \<Rightarrow> False)"

definition consistent ::
  "('v, 'p, 'b, 'pt, 'g) collaborators \<Rightarrow> ('v, 'p, 'b) index \<Rightarrow> bool" where
  "consistent C self =
     (distinct (map key_of (rtree self)) \<and>
      list_all (entry_ok C self) (rtree self) \<and>
      Some ` dom (polygons self) = set (map key_of (rtree self)))"

section \<open>The libraries at rectangles with rational corners\<close>

text \<open>
  The examples of the specification are evaluated with the following collaborators.
  Coordinates are rationals. A polygon is its ring of corners; its bounds are the least and
  greatest coordinates; two polygons are almost equal when they have as many corners and
  corresponding corners differ by at most \<open>0.5e-6\<close>; a point intersects a polygon when it
  lies on an edge or an odd number of edges cross the ray to its right. The intersection
  of two polygons is computed from their bounds, which is exact for the axis-parallel
  rectangles of the examples. The digest is replaced by the digits of the key in base 256.
\<close>

datatype val = Str string | Coords "(rat \<times> rat) list"

datatype shape = NoShape | Ring "(rat \<times> rat) list" | Degenerate

type_synonym box = "rat \<times> rat \<times> rat \<times> rat"

fun key_code :: "val \<Rightarrow> int" where
  "key_code (Str s) = foldl (\<lambda>a c. a * 256 + of_char c) 1 s"
| "key_code (Coords cs) = 0"

fun plane_Polygon :: "val \<Rightarrow> (rat \<times> rat) list" where
  "plane_Polygon (Coords cs) = cs"
| "plane_Polygon (Str s) = []"

fun plane_bounds :: "(rat \<times> rat) list \<Rightarrow> box" where
  "plane_bounds [] = (0, 0, 0, 0)"
| "plane_bounds ((x, y) # cs) =
     (fold min (map fst cs) x, fold min (map snd cs) y,
      fold max (map fst cs) x, fold max (map snd cs) y)"

definition plane_almost_equals :: "(rat \<times> rat) list \<Rightarrow> (rat \<times> rat) list \<Rightarrow> bool" where
  "plane_almost_equals p q =
     (length p = length q \<and>
      list_all (\<lambda>((x, y), (x', y')). \<bar>x - x'\<bar> \<le> 1 / 2000000 \<and> \<bar>y - y'\<bar> \<le> 1 / 2000000)
        (zip p q))"

fun on_segment :: "rat \<times> rat \<Rightarrow> rat \<times> rat \<Rightarrow> rat \<times> rat \<Rightarrow> bool" where
  "on_segment (px, py) (ax, ay) (bx, by) =
     ((bx - ax) * (py - ay) = (by - ay) * (px - ax) \<and>
      min ax bx \<le> px \<and> px \<le> max ax bx \<and> min ay by \<le> py \<and> py \<le> max ay by)"

fun crosses :: "rat \<times> rat \<Rightarrow> rat \<times> rat \<Rightarrow> rat \<times> rat \<Rightarrow> bool" where
  "crosses (px, py) (ax, ay) (bx, by) =
     ((py < ay) \<noteq> (py < by) \<and> px < (bx - ax) * (py - ay) / (by - ay) + ax)"

fun edges :: "(rat \<times> rat) list \<Rightarrow> ((rat \<times> rat) \<times> (rat \<times> rat)) list" where
  "edges [] = []"
| "edges (c # cs) = zip (c # cs) (cs @ [c])"

definition plane_intersects_Point :: "(rat \<times> rat) list \<Rightarrow> rat \<times> rat \<Rightarrow> bool" where
  "plane_intersects_Point cs p =
     (list_ex (\<lambda>(a, b). on_segment p a b) (edges cs) \<or>
      odd (length (filter (\<lambda>(a, b). crosses p a b) (edges cs))))"

fun box_meet :: "box \<Rightarrow> box \<Rightarrow> shape" where
  "box_meet (a, b, c, d) (a', b', c', d') =
     (let x0 = max a a'; y0 = max b b'; x1 = min c c'; y1 = min d d' in
      if x1 < x0 \<or> y1 < y0 then NoShape
      else if x0 = x1 \<or> y0 = y1 then Degenerate
      else Ring [(x0, y0), (x0, y1), (x1, y1), (x1, y0), (x0, y0)])"

definition plane_intersection :: "(rat \<times> rat) list \<Rightarrow> (rat \<times> rat) list \<Rightarrow> shape" where
  "plane_intersection p q =
     (if p = [] \<or> q = [] then NoShape else box_meet (plane_bounds p) (plane_bounds q))"

fun shape_coords :: "shape \<Rightarrow> val" where
  "shape_coords (Ring cs) = Coords cs"
| "shape_coords NoShape = Coords []"
| "shape_coords Degenerate = Coords []"

fun plane_overlaps :: "box \<Rightarrow> box \<Rightarrow> bool" where
  "plane_overlaps (a, b, c, d) (a', b', c', d') = (a \<le> c' \<and> a' \<le> c \<and> b \<le> d' \<and> b' \<le> d)"

fun box_join :: "box \<Rightarrow> box \<Rightarrow> box" where
  "box_join (a, b, c, d) (a', b', c', d') = (min a a', min b b', max c c', max d d')"

fun plane_hull :: "box list \<Rightarrow> box" where
  "plane_hull [] = (0, 0, 0, 0)"
| "plane_hull (b # bs) = fold box_join bs b"

fun plane_dist :: "rat \<times> rat \<Rightarrow> box \<Rightarrow> rat" where
  "plane_dist (px, py) (a, b, c, d) =
     (let dx = max (max (a - px) 0) (px - c); dy = max (max (b - py) 0) (py - d)
      in dx * dx + dy * dy)"

definition plane :: "(val, (rat \<times> rat) list, box, rat \<times> rat, shape) collaborators" where
  "plane =
     \<lparr>md5_int = key_code, Polygon = plane_Polygon, bounds = plane_bounds,
      almost_equals = plane_almost_equals, intersects_Point = plane_intersects_Point,
      intersection = plane_intersection, geom_is_empty = (\<lambda>g. g = NoShape),
      is_Polygon = (\<lambda>g. g \<noteq> Degenerate), exterior_coords = shape_coords,
      box_overlaps = plane_overlaps, box_hull = plane_hull, box_dist = plane_dist\<rparr>"

text \<open>The squares and records of the examples.\<close>

definition square :: "rat \<Rightarrow> rat \<Rightarrow> val" where
  "square lo hi = Coords [(lo, lo), (lo, hi), (hi, hi), (hi, lo)]"

definition rec_A :: "val data" where
  "rec_A = [''file'' \<mapsto> Str ''A'', ''polygon'' \<mapsto> square 0 10]"

definition rec_B :: "val data" where
  "rec_B = [''file'' \<mapsto> Str ''B'', ''polygon'' \<mapsto> square 20 30]"

definition rec_A' :: "val data" where
  "rec_A' = [''file'' \<mapsto> Str ''A'', ''polygon'' \<mapsto> square 0 5, ''note'' \<mapsto> Str ''new'']"

text \<open>The index holding the record \<open>A\<close>, and \<open>A\<close> with one more field.\<close>

definition idx_A :: "(val, (rat \<times> rat) list, box) index" where
  "idx_A = snd (insert_idx plane Polygon_File_Index_init rec_A)"

definition rec_A_note :: "val data" where
  "rec_A_note = rec_A(''note'' \<mapsto> Str ''new'')"

text \<open>The key a call is about, and the keys of a sequence of calls.\<close>

definition call_key :: "'v call \<Rightarrow> 'v option" where
  "call_key c = call_data c ''file''"

definition keys_of :: "'v call list \<Rightarrow> 'v set" where
  "keys_of cs = {k. Some k \<in> set (map call_key cs)}"

text \<open>A sequence of calls on the records of the examples.\<close>

definition calls_AB :: "val call list" where
  "calls_AB = [Insert rec_A, Insert rec_B, Update rec_A', Insert rec_A, Update rec_B]"

text \<open>
  What \<open>load\<close> makes of one element of the array: the tree entry it inserts, if the object
  passes \<open>_check_data\<close> and the element has an identifier and a box.
\<close>

definition accepted :: "('v, 'b) persisted \<Rightarrow> bool" where
  "accepted x =
     (case p_object x of
        None \<Rightarrow> False
      | Some obj \<Rightarrow> obj ''file'' \<noteq> None \<and> obj ''polygon'' \<noteq> None)"

definition complete :: "('v, 'b) persisted \<Rightarrow> bool" where
  "complete x = (accepted x \<longrightarrow> p_id x \<noteq> None \<and> p_bbox x \<noteq> None)"

definition loaded_entry :: "('v, 'b) persisted \<Rightarrow> ('v, 'b) entry option" where
  "loaded_entry x =
     (case (p_id x, p_bbox x, p_object x) of
        (Some i, Some b, Some obj) \<Rightarrow>
          if obj ''file'' \<noteq> None \<and> obj ''polygon'' \<noteq> None
          then Some \<lparr>e_id = i, e_bbox = b, e_object = obj\<rparr> else None
      | _ \<Rightarrow> None)"

text \<open>The registry after the object of a tree entry has been read into it.\<close>

definition register ::
  "('v, 'p, 'b, 'pt, 'g) collaborators \<Rightarrow> ('v, 'b) entry \<Rightarrow> ('v \<rightharpoonup> 'p) \<Rightarrow> ('v \<rightharpoonup> 'p)" where
  "register C e m =
     (case (e_object e ''file'', e_object e ''polygon'') of
        (Some file, Some coords) \<Rightarrow> m(file \<mapsto> Polygon C coords)
      | _ \<Rightarrow> m)"

text \<open>The element of the array that \<open>save\<close> writes for a tree entry.\<close>

definition persist :: "('v, 'b) entry \<Rightarrow> ('v, 'b) persisted" where
  "persist x = \<lparr>p_id = Some (e_id x), p_bbox = Some (e_bbox x), p_object = Some (e_object x)\<rparr>"

definition idx_AB :: "(val, (rat \<times> rat) list, box) index" where
  "idx_AB = snd (run plane Polygon_File_Index_init calls_AB)"

text \<open>
  Two arrays to load: one with the record \<open>B\<close> under a foreign identifier, an object
  without polygon and an element without object; one with the record \<open>A\<close> again.
\<close>

definition file_B :: "(val, box) persisted list" where
  "file_B =
     [\<lparr>p_id = Some 7, p_bbox = Some (20, 20, 30, 30), p_object = Some rec_B\<rparr>,
      \<lparr>p_id = Some 8, p_bbox = Some (0, 0, 1, 1), p_object = Some [''file'' \<mapsto> Str ''C'']\<rparr>,
      \<lparr>p_id = None, p_bbox = None, p_object = None\<rparr>]"

definition file_A' :: "(val, box) persisted list" where
  "file_A' = [\<lparr>p_id = Some 321, p_bbox = Some (0, 0, 5, 5), p_object = Some rec_A'\<rparr>]"

text \<open>The test of \<open>nearest\<close>: the registry's polygon for the record's key meets the point.\<close>

definition holds_point ::
  "('v, 'p, 'b, 'pt, 'g) collaborators \<Rightarrow> ('v, 'p, 'b) index \<Rightarrow> 'pt \<Rightarrow> 'v data \<Rightarrow> bool" where
  "holds_point C self point data =
     (case data ''file'' of
        None \<Rightarrow> False
      | Some file \<Rightarrow>
          (case polygons self file of
             None \<Rightarrow> False
           | Some pl \<Rightarrow> intersects_Point C pl point))"

text \<open>
  An array whose first element gives the record \<open>A\<close> a box far from its polygon, and the
  index loaded from it.
\<close>

definition file_far :: "(val, box) persisted list" where
  "file_far =
     [\<lparr>p_id = Some 321, p_bbox = Some (100, 100, 110, 110), p_object = Some rec_A\<rparr>,
      \<lparr>p_id = Some 322, p_bbox = Some (20, 20, 30, 30), p_object = Some rec_B\<rparr>]"

definition idx_far :: "(val, (rat \<times> rat) list, box) index" where
  "idx_far = snd (load plane Polygon_File_Index_init file_far)"

text \<open>
  What \<open>intersect\<close> makes of a tree entry for the query polygon \<open>P\<close>: the intersection
  of \<open>P\<close> with the registry's polygon for the entry's key, whether it is kept, and the
  entry of the new index.
\<close>

definition schnitt_of ::
  "('v, 'p, 'b, 'pt, 'g) collaborators \<Rightarrow> ('v, 'p, 'b) index \<Rightarrow> 'p \<Rightarrow> ('v, 'b) entry
    \<Rightarrow> 'g option" where
  "schnitt_of C self P e =
     (case key_of e of
        None \<Rightarrow> None
      | Some file \<Rightarrow>
          (case polygons self file of
             None \<Rightarrow> None
           | Some pl \<Rightarrow> Some (intersection C P pl)))"

definition survives ::
  "('v, 'p, 'b, 'pt, 'g) collaborators \<Rightarrow> ('v, 'p, 'b) index \<Rightarrow> 'p \<Rightarrow> ('v, 'b) entry
    \<Rightarrow> bool" where
  "survives C self P e =
     (case schnitt_of C self P e of
        None \<Rightarrow> False
      | Some g \<Rightarrow> \<not> geom_is_empty C g \<and> is_Polygon C g)"

definition clipped ::
  "('v, 'p, 'b, 'pt, 'g) collaborators \<Rightarrow> ('v, 'p, 'b) index \<Rightarrow> 'p \<Rightarrow> ('v, 'b) entry
    \<Rightarrow> ('v, 'b) entry" where
  "clipped C self P e =
     (case (key_of e, schnitt_of C self P e) of
        (Some file, Some g) \<Rightarrow>
          \<lparr>e_id = hash_string C file,
           e_bbox = bounds C (Polygon C (exterior_coords C g)),
           e_object = (e_object e)(''polygon'' \<mapsto> exterior_coords C g)\<rparr>
      | _ \<Rightarrow> e)"

text \<open>
  The index with the squares \<open>A\<close> from 0 to 10, \<open>B\<close> from 20 to 30 and \<open>D\<close> from 25
  to 35.
\<close>

definition rec_D :: "val data" where
  "rec_D = [''file'' \<mapsto> Str ''D'', ''polygon'' \<mapsto> square 25 35]"

definition idx_ABD :: "(val, (rat \<times> rat) list, box) index" where
  "idx_ABD = snd (run plane Polygon_File_Index_init [Insert rec_A, Insert rec_B, Insert rec_D])"

section \<open>Basic facts about the operations\<close>

lemma check_data_ok:
  "data ''file'' = Some k \<Longrightarrow> data ''polygon'' = Some cs \<Longrightarrow> check_data data = Inr ()"
  by (simp add: check_data_def)

lemma check_data_missing:
  "data ''file'' = None \<or> data ''polygon'' = None \<Longrightarrow> \<exists>m. check_data data = Inl (RuntimeError m)"
  by (auto simp: check_data_def)

lemma insert_idx_existing:
  "data ''file'' = Some k \<Longrightarrow> data ''polygon'' = Some cs \<Longrightarrow> polygons self k = Some pl
    \<Longrightarrow> insert_idx C self data = (Inr (), self)"
  by (simp add: insert_idx_def check_data_ok)

lemma insert_idx_new:
  "data ''file'' = Some k \<Longrightarrow> data ''polygon'' = Some cs \<Longrightarrow> polygons self k = None
    \<Longrightarrow> insert_idx C self data =
        (Inr (), self\<lparr>polygons := (polygons self)(k \<mapsto> Polygon C cs),
                     rtree := rtree self @ [\<lparr>e_id = hash_string C k,
                       e_bbox = bounds C (Polygon C cs), e_object = data\<rparr>]\<rparr>)"
  by (simp add: insert_idx_def check_data_ok rtree_insert_def Let_def)

lemma update_new:
  "data ''file'' = Some k \<Longrightarrow> data ''polygon'' = Some cs \<Longrightarrow> polygons self k = None
    \<Longrightarrow> update C self data = (Inr True, snd (insert_idx C self data))"
  by (simp add: update_def check_data_ok insert_idx_new)

lemma update_unchanged:
  "data ''file'' = Some k \<Longrightarrow> data ''polygon'' = Some cs \<Longrightarrow> polygons self k = Some pl
    \<Longrightarrow> almost_equals C pl (Polygon C cs) \<Longrightarrow> update C self data = (Inr False, self)"
  by (simp add: update_def check_data_ok)

lemma update_changed:
  "data ''file'' = Some k \<Longrightarrow> data ''polygon'' = Some cs \<Longrightarrow> polygons self k = Some pl
    \<Longrightarrow> \<not> almost_equals C pl (Polygon C cs) \<Longrightarrow>
    update C self data =
      (Inr True,
       \<lparr>polygons = (polygons self)(k \<mapsto> Polygon C cs),
        rtree = rtree_delete (rtree self) (hash_string C k) (bounds C pl) @
          [\<lparr>e_id = hash_string C k, e_bbox = bounds C (Polygon C cs), e_object = data\<rparr>]\<rparr>)"
  by (simp add: update_def check_data_ok insert_idx_new Let_def)

lemma length_rtree_delete:
  "\<exists>e\<in>set t. e_id e = i \<and> e_bbox e = b \<Longrightarrow> Suc (length (rtree_delete t i b)) = length t"
  by (induction t) auto

lemma consistent_entry:
  assumes "consistent C self" and "polygons self k = Some pl"
  shows "\<exists>e\<in>set (rtree self). key_of e = Some k \<and> e_id e = hash_string C k \<and> e_bbox e = bounds C pl"
proof -
  from assms have "Some k \<in> set (map key_of (rtree self))"
    unfolding consistent_def by blast
  then obtain e where e: "e \<in> set (rtree self)" "key_of e = Some k" by auto
  with assms(1) have "entry_ok C self e"
    by (simp add: consistent_def list_all_iff)
  with e(2) assms(2) have "e_id e = hash_string C k \<and> e_bbox e = bounds C pl"
    by (auto simp: entry_ok_def key_of_def split: option.splits)
  with e show ?thesis by blast
qed

lemma idx_A_eq:
  "idx_A = \<lparr>polygons = [Str ''A'' \<mapsto> [(0, 0), (0, 10), (10, 10), (10, 0)]],
            rtree = [\<lparr>e_id = 321, e_bbox = (0, 0, 10, 10), e_object = rec_A\<rparr>]\<rparr>"
  by (simp add: idx_A_def insert_idx_def check_data_def rec_A_def Polygon_File_Index_init_def
      plane_def square_def rtree_insert_def hash_string_def Let_def)

lemma consistent_idx_A: "consistent plane idx_A"
  by (simp add: idx_A_eq consistent_def entry_ok_def key_of_def rec_A_def square_def plane_def
      hash_string_def)

section \<open>Insert\<close>

text \<open>
  C3. For a record \<open>r\<close> with both fields whose key is already in the registry,
  \<open>insert\<close> returns without an exception and leaves the index as it was, whatever the
  polygon of \<open>r\<close>. Hence after a first record \<open>r1\<close> with a new key has been inserted,
  inserting \<open>r\<close> with the same key changes nothing, and the registry holds the polygon of
  \<open>r1\<close>.
\<close>

theorem insert_first_write_wins:
  assumes "r ''file'' = Some k" and "r ''polygon'' = Some cs"
  shows "(polygons idx k \<noteq> None \<longrightarrow> insert_idx C idx r = (Inr (), idx)) \<and>
         (\<forall>r1 cs1. r1 ''file'' = Some k \<and> r1 ''polygon'' = Some cs1 \<and> polygons idx k = None \<longrightarrow>
            insert_idx C (snd (insert_idx C idx r1)) r = (Inr (), snd (insert_idx C idx r1)) \<and>
            polygons (snd (insert_idx C idx r1)) k = Some (Polygon C cs1))"
proof (intro conjI impI allI)
  assume "polygons idx k \<noteq> None"
  with assms show "insert_idx C idx r = (Inr (), idx)"
    by (auto simp: insert_idx_existing)
next
  fix r1 cs1
  assume h: "r1 ''file'' = Some k \<and> r1 ''polygon'' = Some cs1 \<and> polygons idx k = None"
  then have first: "polygons (snd (insert_idx C idx r1)) k = Some (Polygon C cs1)"
    by (simp add: insert_idx_new)
  then show "polygons (snd (insert_idx C idx r1)) k = Some (Polygon C cs1)" .
  from assms first
  show "insert_idx C (snd (insert_idx C idx r1)) r = (Inr (), snd (insert_idx C idx r1))"
    by (rule insert_idx_existing)
qed

text \<open>
  The index holding \<open>A\<close> with the square from 0 to 10 ignores the insertion of \<open>A\<close> with
  the square from 0 to 5.
\<close>

theorem insert_first_write_wins_witness:
  "insert_idx plane idx_A rec_A' = (Inr (), idx_A) \<and>
   polygons idx_A (Str ''A'') = Some (plane_Polygon (square 0 10))"
proof -
  have f: "rec_A' ''file'' = Some (Str ''A'')" and p: "rec_A' ''polygon'' = Some (square 0 5)"
    by (simp_all add: rec_A'_def)
  have "rec_A ''file'' = Some (Str ''A'') \<and> rec_A ''polygon'' = Some (square 0 10) \<and>
        polygons Polygon_File_Index_init (Str ''A'') = (None :: (rat \<times> rat) list option)"
    by (simp add: rec_A_def Polygon_File_Index_init_def)
  with insert_first_write_wins [OF f p, of "Polygon_File_Index_init" plane]
  have "insert_idx plane (snd (insert_idx plane Polygon_File_Index_init rec_A)) rec_A' =
          (Inr (), snd (insert_idx plane Polygon_File_Index_init rec_A)) \<and>
        polygons (snd (insert_idx plane Polygon_File_Index_init rec_A)) (Str ''A'') =
          Some (Polygon plane (square 0 10))"
    by blast
  then show ?thesis
    by (simp add: idx_A_def plane_def)
qed

section \<open>Malformed records\<close>

text \<open>
  C7. For a record without the field \<open>file\<close> or without the field \<open>polygon\<close>, both
  \<open>insert\<close> and \<open>update\<close> raise the \<open>RuntimeError\<close> of \<open>_check_data\<close>, and the
  registry and the tree are as they were before the call.
\<close>

theorem malformed_record_rejected:
  assumes "d ''file'' = None \<or> d ''polygon'' = None"
  shows "(\<exists>m. insert_idx C idx d = (Inl (RuntimeError m), idx)) \<and>
         (\<exists>m. update C idx d = (Inl (RuntimeError m), idx))"
proof -
  from assms obtain m where "check_data d = Inl (RuntimeError m)"
    using check_data_missing by blast
  then show ?thesis
    by (simp add: insert_idx_def update_def)
qed

text \<open>The empty record, a record with the key only and one with the polygon only.\<close>

theorem malformed_record_rejected_witness:
  "(\<exists>m. insert_idx plane idx_A Map.empty = (Inl (RuntimeError m), idx_A)) \<and>
   (\<exists>m. update plane idx_A Map.empty = (Inl (RuntimeError m), idx_A)) \<and>
   (\<exists>m. insert_idx plane idx_A [''file'' \<mapsto> Str ''B''] = (Inl (RuntimeError m), idx_A)) \<and>
   (\<exists>m. update plane idx_A [''polygon'' \<mapsto> square 0 1] = (Inl (RuntimeError m), idx_A))"
  using malformed_record_rejected [of Map.empty plane idx_A]
    malformed_record_rejected [of "[''file'' \<mapsto> Str ''B'']" plane idx_A]
    malformed_record_rejected [of "[''polygon'' \<mapsto> square 0 1]" plane idx_A]
  by simp

section \<open>Update\<close>

text \<open>
  C10. For a record \<open>r\<close> whose key is in the registry and whose polygon is almost equal to
  the stored one, \<open>update\<close> returns \<open>False\<close> and leaves the tree, with the stored
  objects and all their fields, and the registry as they were: a record \<open>r\<close> that was not
  stored before is not stored afterwards, so fields of \<open>r\<close> that differ from the stored
  ones are dropped.
\<close>

theorem update_discards_metadata:
  assumes "r ''file'' = Some k" and "r ''polygon'' = Some cs"
    and "polygons idx k = Some pl" and "almost_equals C pl (Polygon C cs)"
  shows "fst (update C idx r) = Inr False \<and>
         rtree (snd (update C idx r)) = rtree idx \<and>
         polygons (snd (update C idx r)) = polygons idx \<and>
         (r \<notin> e_object ` set (rtree idx) \<longrightarrow> r \<notin> e_object ` set (rtree (snd (update C idx r))))"
  using assms by (simp add: update_unchanged)

text \<open>
  Updating \<open>A\<close> with the same square and a new field \<open>note\<close> keeps the stored object,
  which has no field \<open>note\<close>.
\<close>

theorem update_discards_metadata_witness:
  "fst (update plane idx_A rec_A_note) = Inr False \<and>
   map e_object (rtree (snd (update plane idx_A rec_A_note))) = [rec_A] \<and>
   rec_A_note ''note'' = Some (Str ''new'') \<and> rec_A ''note'' = None"
proof -
  have f: "rec_A_note ''file'' = Some (Str ''A'')"
    and p: "rec_A_note ''polygon'' = Some (square 0 10)"
    by (simp_all add: rec_A_note_def rec_A_def)
  have s: "polygons idx_A (Str ''A'') = Some [(0, 0), (0, 10), (10, 10), (10, 0)]"
    by (simp add: idx_A_eq)
  have a: "almost_equals plane [(0, 0), (0, 10), (10, 10), (10, 0)] (Polygon plane (square 0 10))"
    by (simp add: plane_def square_def plane_almost_equals_def)
  from update_discards_metadata [OF f p s a]
  have r: "fst (update plane idx_A rec_A_note) = Inr False"
    and t: "rtree (snd (update plane idx_A rec_A_note)) = rtree idx_A"
    by simp_all
  have n: "rec_A_note ''note'' = Some (Str ''new'') \<and> rec_A ''note'' = None"
    by (simp add: rec_A_note_def rec_A_def)
  have "map e_object (rtree idx_A) = [rec_A]"
    by (simp add: idx_A_eq)
  with r t n show ?thesis
    by simp
qed

section \<open>The invariant is kept by insert and update\<close>

lemma consistent_init: "consistent C Polygon_File_Index_init"
  by (simp add: consistent_def Polygon_File_Index_init_def)

lemma entry_ok_cong:
  "entry_ok C s e \<Longrightarrow> (\<And>k. key_of e = Some k \<Longrightarrow> polygons s' k = polygons s k)
    \<Longrightarrow> entry_ok C s' e"
  by (auto simp: entry_ok_def key_of_def split: option.splits)

lemma entry_okD:
  assumes "entry_ok C s e"
  shows "\<exists>k cs. key_of e = Some k \<and> e_object e ''polygon'' = Some cs \<and>
           polygons s k = Some (Polygon C cs) \<and> e_bbox e = bounds C (Polygon C cs) \<and>
           e_id e = hash_string C k"
proof (cases "e_object e ''file''")
  case None
  with assms show ?thesis by (simp add: entry_ok_def)
next
  case (Some k)
  note k = this
  show ?thesis
  proof (cases "e_object e ''polygon''")
    case None
    with k assms show ?thesis by (simp add: entry_ok_def)
  next
    case (Some cs)
    with k assms show ?thesis by (simp add: entry_ok_def key_of_def)
  qed
qed

lemma consistent_entry_ok:
  "consistent C s \<Longrightarrow> e \<in> set (rtree s) \<Longrightarrow> entry_ok C s e"
  by (simp add: consistent_def list_all_iff)

lemma consistent_add:
  assumes c: "consistent C s" and f: "d ''file'' = Some k" and p: "d ''polygon'' = Some cs"
    and n: "polygons s k = None"
  shows "consistent C
           (s\<lparr>polygons := (polygons s)(k \<mapsto> Polygon C cs),
              rtree := rtree s @ [\<lparr>e_id = hash_string C k,
                e_bbox = bounds C (Polygon C cs), e_object = d\<rparr>]\<rparr>)"
    (is "consistent C ?s'")
proof -
  have nk: "Some k \<notin> set (map key_of (rtree s))"
    using c n by (auto simp: consistent_def dest!: arg_cong [where f = "\<lambda>S. Some k \<in> S"])
  have d: "distinct (map key_of (rtree ?s'))"
    using c nk f by (simp add: consistent_def key_of_def)
  have old: "entry_ok C ?s' e" if "e \<in> set (rtree s)" for e
  proof (rule entry_ok_cong)
    show "entry_ok C s e" using c that by (simp add: consistent_def list_all_iff)
    fix k' assume "key_of e = Some k'"
    with nk that have "k' \<noteq> k" by force
    then show "polygons ?s' k' = polygons s k'" by simp
  qed
  have new: "entry_ok C ?s' \<lparr>e_id = hash_string C k,
                e_bbox = bounds C (Polygon C cs), e_object = d\<rparr>"
    using f p by (simp add: entry_ok_def)
  have dm: "Some ` dom (polygons ?s') = set (map key_of (rtree ?s'))"
    using c f by (simp add: consistent_def key_of_def)
  from d old new dm show ?thesis
    by (simp add: consistent_def list_all_iff)
qed

lemma rtree_delete_filter:
  assumes "distinct (map key_of t)"
    and "\<forall>e\<in>set t. \<exists>k'. key_of e = Some k' \<and> k' \<in> K \<and> e_id e = h k' \<and> (k' = k \<longrightarrow> e_bbox e = b)"
    and "inj_on h K" and "k \<in> K"
  shows "rtree_delete t (h k) b = filter (\<lambda>e. key_of e \<noteq> Some k) t"
  using assms(1,2)
proof (induction t)
  case Nil
  then show ?case by simp
next
  case (Cons e t)
  from Cons.prems(2) obtain k' where k': "key_of e = Some k'" "k' \<in> K" "e_id e = h k'"
    "k' = k \<longrightarrow> e_bbox e = b" by auto
  show ?case
  proof (cases "k' = k")
    case True
    with k' Cons.prems(1) have "Some k \<notin> key_of ` set t" by simp
    then have "\<forall>x\<in>set t. key_of x \<noteq> Some k" by (metis imageI)
    then have "filter (\<lambda>e. key_of e \<noteq> Some k) t = t" by (simp add: filter_id_conv)
    with True k' show ?thesis by simp
  next
    case False
    with k' assms(3,4) have "e_id e \<noteq> h k" by (auto dest: inj_onD)
    with False k' Cons show ?thesis by simp
  qed
qed

lemma consistent_delete:
  assumes c: "consistent C s" and s: "polygons s k = Some pl"
    and inj: "inj_on (hash_string C) (dom (polygons s))"
  shows "rtree_delete (rtree s) (hash_string C k) (bounds C pl) =
           filter (\<lambda>e. key_of e \<noteq> Some k) (rtree s)"
proof (rule rtree_delete_filter [where K = "dom (polygons s)"])
  show "distinct (map key_of (rtree s))" using c by (simp add: consistent_def)
  show "inj_on (hash_string C) (dom (polygons s))" by (rule inj)
  show "k \<in> dom (polygons s)" using s by auto
  show "\<forall>e\<in>set (rtree s). \<exists>k'. key_of e = Some k' \<and> k' \<in> dom (polygons s) \<and>
          e_id e = hash_string C k' \<and> (k' = k \<longrightarrow> e_bbox e = bounds C pl)"
  proof
    fix e assume "e \<in> set (rtree s)"
    with c have "entry_ok C s e" by (rule consistent_entry_ok)
    from entry_okD [OF this] obtain k' cs where
      "key_of e = Some k'" "polygons s k' = Some (Polygon C cs)"
      "e_bbox e = bounds C (Polygon C cs)" "e_id e = hash_string C k'" by blast
    with s show "\<exists>k'. key_of e = Some k' \<and> k' \<in> dom (polygons s) \<and>
          e_id e = hash_string C k' \<and> (k' = k \<longrightarrow> e_bbox e = bounds C pl)"
      by auto
  qed
qed

lemma consistent_remove:
  assumes c: "consistent C s"
  shows "consistent C (s\<lparr>rtree := filter (\<lambda>e. key_of e \<noteq> Some k) (rtree s),
                          polygons := (polygons s)(k := None)\<rparr>)"
    (is "consistent C ?s'")
proof -
  have d: "distinct (map key_of (rtree ?s'))"
    using c by (simp add: consistent_def distinct_map_filter)
  have ok: "entry_ok C ?s' e" if "e \<in> set (rtree ?s')" for e
  proof (rule entry_ok_cong)
    show "entry_ok C s e" using c that by (simp add: consistent_def list_all_iff)
    fix k' assume "key_of e = Some k'"
    with that have "k' \<noteq> k" by auto
    then show "polygons ?s' k' = polygons s k'" by simp
  qed
  have "set (map key_of (rtree ?s')) = set (map key_of (rtree s)) - {Some k}"
    by auto
  also have "\<dots> = Some ` dom (polygons s) - {Some k}"
    using c by (simp add: consistent_def)
  also have "\<dots> = Some ` dom (polygons ?s')"
    by auto
  finally have dm: "Some ` dom (polygons ?s') = set (map key_of (rtree ?s'))" by simp
  from d ok dm show ?thesis
    by (simp add: consistent_def list_all_iff)
qed

lemma check_data_InrD:
  "check_data d = Inr u \<Longrightarrow> \<exists>k cs. d ''file'' = Some k \<and> d ''polygon'' = Some cs"
  by (auto simp: check_data_def split: if_splits)

lemma insert_idx_InrD:
  assumes "insert_idx C s d = (Inr u, s')"
  shows "\<exists>k cs. d ''file'' = Some k \<and> d ''polygon'' = Some cs"
proof (cases "check_data d")
  case (Inl e)
  with assms show ?thesis by (simp add: insert_idx_def)
next
  case (Inr u')
  then show ?thesis by (rule check_data_InrD)
qed

lemma update_InrD:
  assumes "update C s d = (Inr u, s')"
  shows "\<exists>k cs. d ''file'' = Some k \<and> d ''polygon'' = Some cs"
proof (cases "check_data d")
  case (Inl e)
  with assms show ?thesis by (simp add: update_def)
next
  case (Inr u')
  then show ?thesis by (rule check_data_InrD)
qed

lemma index_updates:
  "(s :: ('v, 'p, 'b) index)\<lparr>polygons := a, rtree := b\<rparr> = \<lparr>polygons = a, rtree = b\<rparr>"
  by (cases s) simp

lemma insert_step:
  assumes r: "insert_idx C s d = (Inr u, s')" and c: "consistent C s"
  shows "\<exists>k. d ''file'' = Some k \<and> consistent C s' \<and>
           dom (polygons s') = insert k (dom (polygons s))"
proof -
  from insert_idx_InrD [OF r] obtain k cs where
    f: "d ''file'' = Some k" and p: "d ''polygon'' = Some cs" by blast
  show ?thesis
  proof (cases "polygons s k")
    case None
    from insert_idx_new [OF f p None, of C] r consistent_add [OF c f p None] f
    show ?thesis by auto
  next
    case (Some pl)
    from insert_idx_existing [OF f p Some, of C] r c f Some
    show ?thesis by auto
  qed
qed

lemma update_step:
  assumes r: "update C s d = (Inr u, s')" and c: "consistent C s"
    and inj: "inj_on (hash_string C) (dom (polygons s))"
  shows "\<exists>k. d ''file'' = Some k \<and> consistent C s' \<and>
           dom (polygons s') = insert k (dom (polygons s))"
proof -
  from update_InrD [OF r] obtain k cs where
    f: "d ''file'' = Some k" and p: "d ''polygon'' = Some cs" by blast
  show ?thesis
  proof (cases "polygons s k")
    case None
    from update_new [OF f p None, of C] r
    have "s' = snd (insert_idx C s d)" by simp
    with insert_idx_new [OF f p None, of C] consistent_add [OF c f p None] f
    show ?thesis by auto
  next
    case (Some pl)
    show ?thesis
    proof (cases "almost_equals C pl (Polygon C cs)")
      case True
      from update_unchanged [OF f p Some True] r c f Some
      show ?thesis by auto
    next
      case False
      let ?s2 = "s\<lparr>rtree := filter (\<lambda>e. key_of e \<noteq> Some k) (rtree s),
                    polygons := (polygons s)(k := None)\<rparr>"
      have c2: "consistent C ?s2" using c by (rule consistent_remove)
      have n2: "polygons ?s2 k = None" by simp
      from update_changed [OF f p Some False] r consistent_delete [OF c Some inj]
      have s': "s' = \<lparr>polygons = (polygons s)(k \<mapsto> Polygon C cs),
                       rtree = filter (\<lambda>e. key_of e \<noteq> Some k) (rtree s) @
                         [\<lparr>e_id = hash_string C k, e_bbox = bounds C (Polygon C cs),
                           e_object = d\<rparr>]\<rparr>"
        by simp
      from consistent_add [OF c2 f p n2] have "consistent C s'"
        by (simp add: s' index_updates)
      moreover have "dom (polygons s') = insert k (dom (polygons s))"
        by (simp add: s')
      ultimately show ?thesis using f by blast
    qed
  qed
qed

lemma apply_call_step:
  assumes r: "apply_call C s c = (Inr u, s')" and cn: "consistent C s"
    and inj: "inj_on (hash_string C) (dom (polygons s))"
  shows "\<exists>k. call_key c = Some k \<and> consistent C s' \<and>
           dom (polygons s') = insert k (dom (polygons s))"
proof (cases c)
  case (Insert d)
  with r have "insert_idx C s d = (Inr u, s')" by simp
  from insert_step [OF this cn] Insert show ?thesis by (simp add: call_key_def)
next
  case (Update d)
  with r obtain b where "update C s d = (Inr b, s')"
    by (auto split: prod.splits sum.splits)
  from update_step [OF this cn inj] Update show ?thesis by (simp add: call_key_def)
qed

lemma run_consistent:
  "run C s cs = (Inr u, s') \<Longrightarrow> consistent C s \<Longrightarrow>
   inj_on (hash_string C) (dom (polygons s) \<union> keys_of cs) \<Longrightarrow>
   consistent C s' \<and> dom (polygons s') = dom (polygons s) \<union> keys_of cs"
proof (induction cs arbitrary: s)
  case Nil
  then show ?case by (simp add: keys_of_def)
next
  case (Cons c cs)
  from Cons.prems(1) obtain u1 s1 where
    a: "apply_call C s c = (Inr u1, s1)" and rest: "run C s1 cs = (Inr u, s')"
    by (auto split: prod.splits sum.splits)
  have inj0: "inj_on (hash_string C) (dom (polygons s))"
    using Cons.prems(3) by (rule inj_on_subset) simp
  from apply_call_step [OF a Cons.prems(2) inj0] obtain k where
    k: "call_key c = Some k" and c1: "consistent C s1"
    and d1: "dom (polygons s1) = insert k (dom (polygons s))" by blast
  have ks: "keys_of (c # cs) = insert k (keys_of cs)"
    using k by (auto simp: keys_of_def)
  have "inj_on (hash_string C) (dom (polygons s1) \<union> keys_of cs)"
    using Cons.prems(3) by (rule inj_on_subset) (auto simp: d1 ks)
  from Cons.IH [OF rest c1 this] show ?case
    by (auto simp: d1 ks)
qed

lemma consistent_size:
  assumes "consistent C s"
  shows "size_idx s = card (dom (polygons s))"
proof -
  have "size_idx s = length (map key_of (rtree s))"
    by (simp add: size_idx_def rtree_get_size_def)
  also have "\<dots> = card (set (map key_of (rtree s)))"
    using assms distinct_card [of "map key_of (rtree s)"] by (simp add: consistent_def)
  also have "\<dots> = card (Some ` dom (polygons s))"
    using assms by (simp add: consistent_def)
  also have "\<dots> = card (dom (polygons s))"
    by (simp add: card_image)
  finally show ?thesis .
qed

text \<open>
  C1. After a sequence of \<open>insert\<close> and \<open>update\<close> calls on a new index, none of which
  raised, the keys of the registry are the keys of the objects in the tree, no key is twice
  in the tree, every entry of the tree carries the coordinates from which the registry's
  polygon for its key is built and that polygon's bounds, the keys are those of the calls,
  and \<open>size\<close> is their number. The digest is taken to be injective on the keys of the
  calls, which is what the specification asks of the hashing collaborator.
\<close>

theorem registry_tree_agree:
  assumes "run C Polygon_File_Index_init cs = (Inr (), idx)"
    and "inj_on (hash_string C) (keys_of cs)"
  shows "Some ` dom (polygons idx) = set (map key_of (rtree idx)) \<and>
         distinct (map key_of (rtree idx)) \<and>
         (\<forall>e\<in>set (rtree idx). \<exists>k coords.
            key_of e = Some k \<and> e_object e ''polygon'' = Some coords \<and>
            polygons idx k = Some (Polygon C coords) \<and>
            e_bbox e = bounds C (Polygon C coords)) \<and>
         dom (polygons idx) = keys_of cs \<and>
         size_idx idx = card (keys_of cs)"
proof -
  have "inj_on (hash_string C)
          (dom (polygons (Polygon_File_Index_init :: ('a, 'b, 'c) index)) \<union> keys_of cs)"
    using assms(2) by (simp add: Polygon_File_Index_init_def)
  from run_consistent [OF assms(1) consistent_init this]
  have c: "consistent C idx" and d: "dom (polygons idx) = keys_of cs"
    by (simp_all add: Polygon_File_Index_init_def)
  have "\<exists>k coords. key_of e = Some k \<and> e_object e ''polygon'' = Some coords \<and>
          polygons idx k = Some (Polygon C coords) \<and> e_bbox e = bounds C (Polygon C coords)"
    if "e \<in> set (rtree idx)" for e
    using entry_okD [OF consistent_entry_ok [OF c that]] by blast
  moreover from c have "Some ` dom (polygons idx) = set (map key_of (rtree idx))"
    and "distinct (map key_of (rtree idx))"
    by (simp_all add: consistent_def)
  moreover from consistent_size [OF c] d have "size_idx idx = card (keys_of cs)"
    by simp
  ultimately show ?thesis using d by blast
qed

text \<open>Five calls on the two keys \<open>A\<close> and \<open>B\<close> leave an index of size two.\<close>

lemma run_calls_AB:
  "run plane Polygon_File_Index_init calls_AB =
     (Inr (),
      \<lparr>polygons = [Str ''B'' \<mapsto> [(20, 20), (20, 30), (30, 30), (30, 20)],
                   Str ''A'' \<mapsto> [(0, 0), (0, 5), (5, 5), (5, 0)]],
       rtree = [\<lparr>e_id = 322, e_bbox = (20, 20, 30, 30), e_object = rec_B\<rparr>,
                \<lparr>e_id = 321, e_bbox = (0, 0, 5, 5), e_object = rec_A'\<rparr>]\<rparr>)"
  by (simp add: calls_AB_def insert_idx_def update_def check_data_def rec_A_def rec_B_def
      rec_A'_def Polygon_File_Index_init_def plane_def square_def rtree_insert_def
      hash_string_def Let_def plane_almost_equals_def)

lemma keys_of_calls_AB: "keys_of calls_AB = {Str ''A'', Str ''B''}"
  by (auto simp: keys_of_def calls_AB_def call_key_def rec_A_def rec_B_def rec_A'_def)

theorem registry_tree_agree_witness:
  "fst (run plane Polygon_File_Index_init calls_AB) = Inr () \<and>
   dom (polygons (snd (run plane Polygon_File_Index_init calls_AB))) = {Str ''A'', Str ''B''} \<and>
   size_idx (snd (run plane Polygon_File_Index_init calls_AB)) = 2 \<and>
   length calls_AB = 5"
proof -
  have r: "run plane Polygon_File_Index_init calls_AB =
             (Inr (), snd (run plane Polygon_File_Index_init calls_AB))"
    by (simp add: run_calls_AB)
  have i: "inj_on (hash_string plane) (keys_of calls_AB)"
    by (simp add: keys_of_calls_AB hash_string_def plane_def)
  from registry_tree_agree [OF r i]
  have "dom (polygons (snd (run plane Polygon_File_Index_init calls_AB))) = keys_of calls_AB"
    and "size_idx (snd (run plane Polygon_File_Index_init calls_AB)) = card (keys_of calls_AB)"
    by blast+
  then have "dom (polygons (snd (run plane Polygon_File_Index_init calls_AB))) =
               {Str ''A'', Str ''B''}"
    and "size_idx (snd (run plane Polygon_File_Index_init calls_AB)) = 2"
    by (simp_all add: keys_of_calls_AB)
  moreover have "fst (run plane Polygon_File_Index_init calls_AB) = Inr ()"
    by (simp add: run_calls_AB)
  moreover have "length calls_AB = 5"
    by (simp add: calls_AB_def)
  ultimately show ?thesis by simp
qed

text \<open>
  C2. For a record \<open>r\<close> with both fields: when its key is new, \<open>update\<close> does what
  \<open>insert\<close> does and returns \<open>True\<close>; when the key is present and the polygon of
  \<open>r\<close> is almost equal to the stored one, it returns \<open>False\<close> and changes nothing;
  when the polygons differ, it deletes from the tree by the key's hash and the bounds of
  the stored polygon, removes the key from the registry, inserts \<open>r\<close> as \<open>insert\<close>
  does and returns \<open>True\<close>, the registry then holds the polygon of \<open>r\<close>, and on an
  index that satisfies the invariant the size is as before (with an injective digest the
  entry deleted is the one of the key).
\<close>

theorem update_change_detection:
  assumes "r ''file'' = Some k" and "r ''polygon'' = Some cs"
  shows "(polygons idx k = None \<longrightarrow>
            fst (insert_idx C idx r) = Inr () \<and>
            update C idx r = (Inr True, snd (insert_idx C idx r))) \<and>
         (\<forall>pl. polygons idx k = Some pl \<and> almost_equals C pl (Polygon C cs) \<longrightarrow>
            update C idx r = (Inr False, idx)) \<and>
         (\<forall>pl. polygons idx k = Some pl \<and> \<not> almost_equals C pl (Polygon C cs) \<longrightarrow>
            update C idx r =
              (Inr True,
               snd (insert_idx C
                 (idx\<lparr>rtree := rtree_delete (rtree idx) (hash_string C k) (bounds C pl),
                      polygons := (polygons idx)(k := None)\<rparr>) r)) \<and>
            polygons (snd (update C idx r)) k = Some (Polygon C cs) \<and>
            (consistent C idx \<longrightarrow> size_idx (snd (update C idx r)) = size_idx idx) \<and>
            (consistent C idx \<and> inj_on (hash_string C) (dom (polygons idx)) \<longrightarrow>
               rtree (snd (update C idx r)) =
                 filter (\<lambda>e. key_of e \<noteq> Some k) (rtree idx) @
                 [\<lparr>e_id = hash_string C k, e_bbox = bounds C (Polygon C cs), e_object = r\<rparr>]))"
proof (intro conjI impI allI)
  assume n: "polygons idx k = None"
  from insert_idx_new [OF assms n, of C] show "fst (insert_idx C idx r) = Inr ()" by simp
  from update_new [OF assms n] show "update C idx r = (Inr True, snd (insert_idx C idx r))" .
next
  fix pl assume "polygons idx k = Some pl \<and> almost_equals C pl (Polygon C cs)"
  then show "update C idx r = (Inr False, idx)"
    using assms by (simp add: update_unchanged)
next
  fix pl assume h: "polygons idx k = Some pl \<and> \<not> almost_equals C pl (Polygon C cs)"
  then have s: "polygons idx k = Some pl" and a: "\<not> almost_equals C pl (Polygon C cs)"
    by simp_all
  note u = update_changed [OF assms s a]
  let ?s2 = "idx\<lparr>rtree := rtree_delete (rtree idx) (hash_string C k) (bounds C pl),
                 polygons := (polygons idx)(k := None)\<rparr>"
  have "polygons ?s2 k = None" by simp
  from insert_idx_new [OF assms this, of C] u
  show "update C idx r = (Inr True, snd (insert_idx C ?s2 r))"
    by simp
  from u show "polygons (snd (update C idx r)) k = Some (Polygon C cs)" by simp
  {
    assume c: "consistent C idx"
    from consistent_entry [OF c s]
    have "\<exists>e\<in>set (rtree idx). e_id e = hash_string C k \<and> e_bbox e = bounds C pl" by blast
    from length_rtree_delete [OF this] u
    show "size_idx (snd (update C idx r)) = size_idx idx"
      by (simp add: size_idx_def rtree_get_size_def)
  }
  {
    assume "consistent C idx \<and> inj_on (hash_string C) (dom (polygons idx))"
    then have "rtree_delete (rtree idx) (hash_string C k) (bounds C pl) =
                 filter (\<lambda>e. key_of e \<noteq> Some k) (rtree idx)"
      using s by (simp add: consistent_delete)
    with u show "rtree (snd (update C idx r)) =
                 filter (\<lambda>e. key_of e \<noteq> Some k) (rtree idx) @
                 [\<lparr>e_id = hash_string C k, e_bbox = bounds C (Polygon C cs), e_object = r\<rparr>]"
      by simp
  }
qed

text \<open>
  The three cases: \<open>A\<close> on the empty index, \<open>A\<close> with the same square, \<open>A\<close> with a
  smaller square.
\<close>

theorem update_change_detection_witness:
  "update plane Polygon_File_Index_init rec_A = (Inr True, idx_A) \<and>
   update plane idx_A rec_A_note = (Inr False, idx_A) \<and>
   fst (update plane idx_A rec_A') = Inr True \<and>
   polygons (snd (update plane idx_A rec_A')) (Str ''A'') = Some [(0, 0), (0, 5), (5, 5), (5, 0)] \<and>
   size_idx (snd (update plane idx_A rec_A')) = size_idx idx_A"
proof -
  have a: "rec_A ''file'' = Some (Str ''A'')" "rec_A ''polygon'' = Some (square 0 10)"
    by (simp_all add: rec_A_def)
  have n: "polygons (Polygon_File_Index_init :: (val, (rat \<times> rat) list, box) index)
             (Str ''A'') = None"
    by (simp add: Polygon_File_Index_init_def)
  from update_change_detection [OF a, of Polygon_File_Index_init plane] n
  have 1: "update plane Polygon_File_Index_init rec_A = (Inr True, idx_A)"
    by (simp add: idx_A_def)
  have b: "rec_A_note ''file'' = Some (Str ''A'')" "rec_A_note ''polygon'' = Some (square 0 10)"
    by (simp_all add: rec_A_note_def rec_A_def)
  have s: "polygons idx_A (Str ''A'') = Some [(0, 0), (0, 10), (10, 10), (10, 0)]"
    by (simp add: idx_A_eq)
  have eq: "almost_equals plane [(0, 0), (0, 10), (10, 10), (10, 0)] (Polygon plane (square 0 10))"
    by (simp add: plane_def square_def plane_almost_equals_def)
  from update_change_detection [OF b, of idx_A plane] s eq
  have 2: "update plane idx_A rec_A_note = (Inr False, idx_A)"
    by blast
  have c: "rec_A' ''file'' = Some (Str ''A'')" "rec_A' ''polygon'' = Some (square 0 5)"
    by (simp_all add: rec_A'_def)
  have ne: "\<not> almost_equals plane [(0, 0), (0, 10), (10, 10), (10, 0)] (Polygon plane (square 0 5))"
    by (simp add: plane_def square_def plane_almost_equals_def)
  from update_change_detection [OF c, of idx_A plane] s ne consistent_idx_A
  have "update plane idx_A rec_A' =
          (Inr True,
           snd (insert_idx plane
             (idx_A\<lparr>rtree := rtree_delete (rtree idx_A) (hash_string plane (Str ''A''))
                       (bounds plane [(0, 0), (0, 10), (10, 10), (10, 0)]),
                    polygons := (polygons idx_A)(Str ''A'' := None)\<rparr>) rec_A'))"
    and "polygons (snd (update plane idx_A rec_A')) (Str ''A'') = Some (Polygon plane (square 0 5))"
    and "size_idx (snd (update plane idx_A rec_A')) = size_idx idx_A"
    by (blast, blast, blast)
  moreover have "Polygon plane (square 0 5) = [(0, 0), (0, 5), (5, 5), (5, 0)]"
    by (simp add: plane_def square_def)
  ultimately show ?thesis
    using 1 2 by simp
qed

section \<open>Load and save\<close>

lemma load_skip:
  "\<not> accepted x \<Longrightarrow> load C s (x # xs) = load C s xs"
  by (auto simp: accepted_def check_data_def split: option.splits)

lemma load_accept:
  assumes "p_object x = Some obj" and "obj ''file'' = Some k" and "obj ''polygon'' = Some cs"
    and "p_id x = Some i" and "p_bbox x = Some b"
  shows "load C s (x # xs) =
           load C \<lparr>polygons = (polygons s)(k \<mapsto> Polygon C cs),
                   rtree = rtree s @ [\<lparr>e_id = i, e_bbox = b, e_object = obj\<rparr>]\<rparr> xs"
  using assms by (cases s) (simp add: check_data_ok rtree_insert_def Let_def)

lemma load_Nil: "load C s [] = (Inr (), s)"
  by simp

declare load.simps [simp del]

lemma loaded_entry_skip: "\<not> accepted x \<Longrightarrow> loaded_entry x = None"
  by (auto simp: accepted_def loaded_entry_def split: option.splits)

lemma loaded_entry_accept:
  assumes "p_object x = Some obj" and "obj ''file'' = Some k" and "obj ''polygon'' = Some cs"
    and "p_id x = Some i" and "p_bbox x = Some b"
  shows "loaded_entry x = Some \<lparr>e_id = i, e_bbox = b, e_object = obj\<rparr>"
  using assms by (simp add: loaded_entry_def)

lemma accepted_completeD:
  assumes "accepted x" and "complete x"
  shows "\<exists>obj k cs i b. p_object x = Some obj \<and> obj ''file'' = Some k \<and>
           obj ''polygon'' = Some cs \<and> p_id x = Some i \<and> p_bbox x = Some b"
  using assms by (auto simp: accepted_def complete_def split: option.splits)

lemma load_complete:
  "list_all complete xs \<Longrightarrow>
   load C s xs =
     (Inr (), \<lparr>polygons = fold (register C) (List.map_filter loaded_entry xs) (polygons s),
               rtree = rtree s @ List.map_filter loaded_entry xs\<rparr>)"
proof (induction xs arbitrary: s)
  case Nil
  show ?case by (cases s) (simp add: List.map_filter_simps load_Nil)
next
  case (Cons x xs)
  then have IH: "\<And>s. load C s xs =
     (Inr (), \<lparr>polygons = fold (register C) (List.map_filter loaded_entry xs) (polygons s),
               rtree = rtree s @ List.map_filter loaded_entry xs\<rparr>)"
    and cx: "complete x" by simp_all
  show ?case
  proof (cases "accepted x")
    case False
    then show ?thesis
      by (simp add: load_skip loaded_entry_skip IH List.map_filter_simps)
  next
    case True
    from accepted_completeD [OF True cx] obtain obj k cs i b where
      h: "p_object x = Some obj" "obj ''file'' = Some k" "obj ''polygon'' = Some cs"
         "p_id x = Some i" "p_bbox x = Some b" by blast
    have "register C \<lparr>e_id = i, e_bbox = b, e_object = obj\<rparr> (polygons s) =
            (polygons s)(k \<mapsto> Polygon C cs)"
      using h by (simp add: register_def)
    then show ?thesis
      by (simp add: load_accept [OF h] loaded_entry_accept [OF h] IH List.map_filter_simps
         )
  qed
qed

lemma register_other:
  "key_of e \<noteq> Some k \<Longrightarrow> register C e m k = m k"
  by (auto simp: register_def key_of_def split: option.splits)

lemma register_dom: "dom m \<subseteq> dom (register C e m)"
  by (auto simp: register_def split: option.splits)

lemma fold_register_dom: "dom m \<subseteq> dom (fold (register C) es m)"
proof (induction es arbitrary: m)
  case Nil
  show ?case by simp
next
  case (Cons e es)
  have "dom m \<subseteq> dom (register C e m)" by (rule register_dom)
  also have "\<dots> \<subseteq> dom (fold (register C) es (register C e m))" by (rule Cons.IH)
  finally show ?case by simp
qed

lemma fold_register_other:
  "Some k \<notin> key_of ` set es \<Longrightarrow> fold (register C) es m k = m k"
proof (induction es arbitrary: m)
  case Nil
  show ?case by simp
next
  case (Cons e es)
  then have "key_of e \<noteq> Some k" and "Some k \<notin> key_of ` set es" by auto
  with Cons.IH [of "register C e m"] show ?case
    by (simp add: register_other)
qed

lemma fold_register_key:
  assumes "distinct (map key_of es)" and "e \<in> set es" and "key_of e = Some k"
    and "e_object e ''polygon'' = Some cs"
  shows "fold (register C) es m k = Some (Polygon C cs)"
  using assms(1,2)
proof (induction es arbitrary: m)
  case Nil
  then show ?case by simp
next
  case (Cons x es)
  show ?case
  proof (cases "x = e")
    case True
    with Cons.prems(1) assms(3) have "Some k \<notin> key_of ` set es" by simp
    from fold_register_other [OF this]
    have "fold (register C) es (register C e m) k = register C e m k" .
    moreover from assms(3,4) have "register C e m k = Some (Polygon C cs)"
      by (simp add: register_def key_of_def)
    ultimately show ?thesis using True by simp
  next
    case False
    with Cons show ?thesis by simp
  qed
qed

lemma consistent_registry:
  assumes c: "consistent C s"
  shows "fold (register C) (rtree s) Map.empty = polygons s"
proof
  fix k
  show "fold (register C) (rtree s) Map.empty k = polygons s k"
  proof (cases "Some k \<in> key_of ` set (rtree s)")
    case True
    then obtain e where e: "e \<in> set (rtree s)" "key_of e = Some k" by auto
    from entry_okD [OF consistent_entry_ok [OF c e(1)]] e(2) obtain cs where
      cs: "e_object e ''polygon'' = Some cs" "polygons s k = Some (Polygon C cs)" by auto
    from c have "distinct (map key_of (rtree s))" by (simp add: consistent_def)
    from fold_register_key [OF this e cs(1)] cs(2) show ?thesis by simp
  next
    case False
    with c have "k \<notin> dom (polygons s)" by (auto simp: consistent_def)
    then have "polygons s k = None" by (simp add: domIff)
    with fold_register_other [OF False, of C Map.empty] show ?thesis by simp
  qed
qed

lemma loaded_entry_persist:
  "e_object e ''file'' \<noteq> None \<Longrightarrow> e_object e ''polygon'' \<noteq> None
    \<Longrightarrow> loaded_entry (persist e) = Some e"
  by (simp add: loaded_entry_def persist_def)

lemma map_filter_persist:
  "list_all (entry_ok C s) t \<Longrightarrow> List.map_filter loaded_entry (map persist t) = t"
proof (induction t)
  case Nil
  show ?case by (simp add: List.map_filter_simps)
next
  case (Cons e t)
  from Cons.prems have "entry_ok C s e" by simp
  from entry_okD [OF this] have "loaded_entry (persist e) = Some e"
    by (auto simp: key_of_def intro: loaded_entry_persist)
  with Cons show ?case by (simp add: List.map_filter_simps)
qed

lemma complete_persist: "complete (persist e)"
  by (simp add: complete_def persist_def)

lemma save_all:
  assumes "list_all (\<lambda>e. box_overlaps C (e_bbox e) (rtree_bounds C (rtree s))) (rtree s)"
  shows "save C s = map persist (rtree s)"
proof -
  from assms have "filter (\<lambda>e. box_overlaps C (e_bbox e) (rtree_bounds C (rtree s))) (rtree s) = rtree s"
    by (simp add: filter_id_conv list_all_iff)
  then show ?thesis
    by (simp add: save_def rtree_intersection_def persist_def [abs_def])
qed

lemma load_save:
  assumes c: "consistent C s"
    and "list_all (\<lambda>e. box_overlaps C (e_bbox e) (rtree_bounds C (rtree s))) (rtree s)"
  shows "load C Polygon_File_Index_init (save C s) = (Inr (), s)"
proof -
  from c have ok: "list_all (entry_ok C s) (rtree s)" by (simp add: consistent_def)
  have "list_all complete (map persist (rtree s))"
    by (simp add: list_all_iff complete_persist)
  from load_complete [OF this, of C Polygon_File_Index_init]
  show ?thesis
    by (simp add: save_all [OF assms(2)] map_filter_persist [OF ok] consistent_registry [OF c]
        Polygon_File_Index_init_def)
qed

text \<open>
  C8. \<open>load\<close> skips an element whose object is missing or lacks the field \<open>file\<close> or the
  field \<open>polygon\<close>, and goes on with the rest. For an element with both fields it adds
  the tree entry with the persisted identifier, box and object, the hash not being
  computed, and stores under the object's key the polygon built from the object's
  coordinates. When every element it accepts has an identifier and a box, \<open>load\<close>
  returns without an exception; the entries the tree held come first in the tree it leaves,
  and every key of the registry is still a key.
\<close>

theorem load_skips_and_merges:
  assumes "list_all complete xs"
  shows "fst (load C idx xs) = Inr () \<and>
         rtree (snd (load C idx xs)) = rtree idx @ List.map_filter loaded_entry xs \<and>
         polygons (snd (load C idx xs)) =
           fold (register C) (List.map_filter loaded_entry xs) (polygons idx) \<and>
         dom (polygons idx) \<subseteq> dom (polygons (snd (load C idx xs))) \<and>
         (\<forall>x. \<not> accepted x \<longrightarrow> load C idx (x # xs) = load C idx xs) \<and>
         (\<forall>x obj k cs i b.
            p_object x = Some obj \<and> obj ''file'' = Some k \<and> obj ''polygon'' = Some cs \<and>
            p_id x = Some i \<and> p_bbox x = Some b \<longrightarrow>
            load C idx (x # xs) =
              load C \<lparr>polygons = (polygons idx)(k \<mapsto> Polygon C cs),
                      rtree = rtree idx @ [\<lparr>e_id = i, e_bbox = b, e_object = obj\<rparr>]\<rparr> xs)"
proof -
  note l = load_complete [OF assms, of C idx]
  have "dom (polygons idx) \<subseteq> dom (polygons (snd (load C idx xs)))"
    by (simp add: l fold_register_dom)
  moreover have "\<forall>x. \<not> accepted x \<longrightarrow> load C idx (x # xs) = load C idx xs"
    using load_skip by blast
  moreover have "\<forall>x obj k cs i b.
            p_object x = Some obj \<and> obj ''file'' = Some k \<and> obj ''polygon'' = Some cs \<and>
            p_id x = Some i \<and> p_bbox x = Some b \<longrightarrow>
            load C idx (x # xs) =
              load C \<lparr>polygons = (polygons idx)(k \<mapsto> Polygon C cs),
                      rtree = rtree idx @ [\<lparr>e_id = i, e_bbox = b, e_object = obj\<rparr>]\<rparr> xs"
    by (intro allI impI) (elim conjE, rule load_accept)
  ultimately show ?thesis by (simp add: l)
qed

text \<open>
  Loading the array \<open>file_B\<close> into the index that holds \<open>A\<close> keeps \<open>A\<close>, adds \<open>B\<close>
  under the identifier 7 of the array and skips the two other elements.
\<close>

theorem load_skips_and_merges_witness:
  "fst (load plane idx_A file_B) = Inr () \<and>
   map e_id (rtree (snd (load plane idx_A file_B))) = [321, 7] \<and>
   map key_of (rtree (snd (load plane idx_A file_B))) = [Some (Str ''A''), Some (Str ''B'')] \<and>
   dom (polygons (snd (load plane idx_A file_B))) = {Str ''A'', Str ''B''}"
proof -
  have c: "list_all complete file_B"
    by (simp add: file_B_def complete_def accepted_def)
  have m: "List.map_filter loaded_entry file_B =
             [\<lparr>e_id = 7, e_bbox = (20, 20, 30, 30), e_object = rec_B\<rparr>]"
    by (simp add: file_B_def List.map_filter_simps loaded_entry_def rec_B_def)
  from load_skips_and_merges [OF c, of plane idx_A]
  have "fst (load plane idx_A file_B) = Inr ()"
    and "rtree (snd (load plane idx_A file_B)) = rtree idx_A @ List.map_filter loaded_entry file_B"
    and "polygons (snd (load plane idx_A file_B)) =
           fold (register plane) (List.map_filter loaded_entry file_B) (polygons idx_A)"
    by (blast, blast, blast)
  then show ?thesis
    by (auto simp: m idx_A_eq key_of_def rec_A_def rec_B_def register_def)
qed

text \<open>
  C9. \<open>load\<close> does not look whether the key of an element is in the index. For an
  element with both fields, an identifier and a box whose key is in the registry, the
  tree gets one more entry and keeps the ones it had, the registry's polygon for the key
  is replaced and its keys stay the same, so \<open>size\<close> grows by one; if the index
  satisfied the invariant before, then afterwards \<open>size\<close> is greater than the number of
  keys and the invariant is broken.
\<close>

theorem load_existing_key:
  assumes "p_object x = Some obj" and "obj ''file'' = Some k" and "obj ''polygon'' = Some cs"
    and "p_id x = Some i" and "p_bbox x = Some b" and "polygons idx k \<noteq> None"
  shows "load C idx [x] =
           (Inr (), \<lparr>polygons = (polygons idx)(k \<mapsto> Polygon C cs),
                     rtree = rtree idx @ [\<lparr>e_id = i, e_bbox = b, e_object = obj\<rparr>]\<rparr>) \<and>
         dom (polygons (snd (load C idx [x]))) = dom (polygons idx) \<and>
         size_idx (snd (load C idx [x])) = Suc (size_idx idx) \<and>
         (consistent C idx \<longrightarrow>
            card (dom (polygons (snd (load C idx [x])))) < size_idx (snd (load C idx [x])) \<and>
            \<not> consistent C (snd (load C idx [x])))"
proof -
  have l: "load C idx [x] =
           (Inr (), \<lparr>polygons = (polygons idx)(k \<mapsto> Polygon C cs),
                     rtree = rtree idx @ [\<lparr>e_id = i, e_bbox = b, e_object = obj\<rparr>]\<rparr>)"
    by (simp add: load_accept [OF assms(1-5)] load_Nil)
  from assms(6) have d: "dom (polygons (snd (load C idx [x]))) = dom (polygons idx)"
    by (auto simp: l)
  have s: "size_idx (snd (load C idx [x])) = Suc (size_idx idx)"
    by (simp add: l size_idx_def rtree_get_size_def)
  have "card (dom (polygons (snd (load C idx [x])))) < size_idx (snd (load C idx [x])) \<and>
        \<not> consistent C (snd (load C idx [x]))" if c: "consistent C idx"
  proof -
    from consistent_size [OF c] d s
    have lt: "card (dom (polygons (snd (load C idx [x])))) < size_idx (snd (load C idx [x]))"
      by simp
    then have "\<not> consistent C (snd (load C idx [x]))"
      using consistent_size [of C "snd (load C idx [x])"] by auto
    with lt show ?thesis by simp
  qed
  with l d s show ?thesis by blast
qed

text \<open>
  Loading an array that holds the key \<open>A\<close> into the index that holds \<open>A\<close>: two tree
  entries for the one key.
\<close>

theorem load_existing_key_witness:
  "size_idx idx_A = 1 \<and> consistent plane idx_A \<and>
   fst (load plane idx_A file_A') = Inr () \<and>
   size_idx (snd (load plane idx_A file_A')) = 2 \<and>
   dom (polygons (snd (load plane idx_A file_A'))) = {Str ''A''} \<and>
   card (dom (polygons (snd (load plane idx_A file_A')))) < size_idx (snd (load plane idx_A file_A'))"
proof -
  have x: "p_object (hd file_A') = Some rec_A'" "rec_A' ''file'' = Some (Str ''A'')"
    "rec_A' ''polygon'' = Some (square 0 5)" "p_id (hd file_A') = Some 321"
    "p_bbox (hd file_A') = Some (0, 0, 5, 5)"
    by (simp_all add: file_A'_def rec_A'_def)
  have k: "polygons idx_A (Str ''A'') \<noteq> None"
    by (simp add: idx_A_eq)
  have f: "[hd file_A'] = file_A'"
    by (simp add: file_A'_def)
  have s1: "size_idx idx_A = 1" and dA: "dom (polygons idx_A) = {Str ''A''}"
    by (simp_all add: idx_A_eq size_idx_def rtree_get_size_def)
  from load_existing_key [OF x k, of plane] consistent_idx_A
  have "fst (load plane idx_A [hd file_A']) = Inr ()"
    and "dom (polygons (snd (load plane idx_A [hd file_A']))) = dom (polygons idx_A)"
    and "size_idx (snd (load plane idx_A [hd file_A'])) = Suc (size_idx idx_A)"
    and "card (dom (polygons (snd (load plane idx_A [hd file_A'])))) <
           size_idx (snd (load plane idx_A [hd file_A']))"
    by (simp, blast, blast, blast)
  then show ?thesis
    using consistent_idx_A by (simp add: f s1 dA)
qed

text \<open>
  C4. For an index that satisfies the invariant, \<open>save\<close> writes one element for each of
  its records, and \<open>load\<close> of what \<open>save\<close> wrote into a new index returns without an
  exception and gives an index of the same size with the same keys, in which every key has
  the polygon it had, built again from the saved coordinates; that polygon is almost equal
  to the original whenever the original is almost equal to itself. The tree is taken to
  return every entry when it is asked for the entries that overlap its own bounds.
\<close>

theorem save_load_round_trip:
  assumes "consistent C idx"
    and "list_all (\<lambda>e. box_overlaps C (e_bbox e) (rtree_bounds C (rtree idx))) (rtree idx)"
  shows "save C idx = map persist (rtree idx) \<and>
         length (save C idx) = size_idx idx \<and>
         fst (load C Polygon_File_Index_init (save C idx)) = Inr () \<and>
         size_idx (snd (load C Polygon_File_Index_init (save C idx))) = size_idx idx \<and>
         dom (polygons (snd (load C Polygon_File_Index_init (save C idx)))) =
           dom (polygons idx) \<and>
         (\<forall>k p. polygons idx k = Some p \<longrightarrow>
            polygons (snd (load C Polygon_File_Index_init (save C idx))) k = Some p) \<and>
         (\<forall>k p p'. polygons idx k = Some p \<and>
            polygons (snd (load C Polygon_File_Index_init (save C idx))) k = Some p' \<and>
            almost_equals C p p \<longrightarrow> almost_equals C p' p)"
proof -
  note l = load_save [OF assms]
  have "save C idx = map persist (rtree idx)"
    by (rule save_all [OF assms(2)])
  moreover have "length (save C idx) = size_idx idx"
    by (simp add: save_all [OF assms(2)] size_idx_def rtree_get_size_def)
  ultimately show ?thesis
    by (auto simp: l [unfolded save_all [OF assms(2)]])
qed

lemma idx_AB_eq:
  "idx_AB =
     \<lparr>polygons = [Str ''B'' \<mapsto> [(20, 20), (20, 30), (30, 30), (30, 20)],
                  Str ''A'' \<mapsto> [(0, 0), (0, 5), (5, 5), (5, 0)]],
      rtree = [\<lparr>e_id = 322, e_bbox = (20, 20, 30, 30), e_object = rec_B\<rparr>,
               \<lparr>e_id = 321, e_bbox = (0, 0, 5, 5), e_object = rec_A'\<rparr>]\<rparr>"
  by (simp add: idx_AB_def run_calls_AB)

lemma consistent_idx_AB: "consistent plane idx_AB"
  by (auto simp: idx_AB_eq consistent_def entry_ok_def key_of_def rec_A'_def rec_B_def
      square_def plane_def hash_string_def)

text \<open>The index with the two records \<open>A\<close> and \<open>B\<close>, saved and loaded.\<close>

theorem save_load_round_trip_witness:
  "size_idx idx_AB = 2 \<and>
   length (save plane idx_AB) = 2 \<and>
   fst (load plane Polygon_File_Index_init (save plane idx_AB)) = Inr () \<and>
   size_idx (snd (load plane Polygon_File_Index_init (save plane idx_AB))) = 2 \<and>
   dom (polygons (snd (load plane Polygon_File_Index_init (save plane idx_AB)))) =
     {Str ''A'', Str ''B''}"
proof -
  have b: "rtree_bounds plane (rtree idx_AB) = (0, 0, 30, 30)"
    by (simp add: idx_AB_eq rtree_bounds_def plane_def)
  have o: "list_all (\<lambda>e. box_overlaps plane (e_bbox e) (rtree_bounds plane (rtree idx_AB)))
             (rtree idx_AB)"
    unfolding b by (simp add: idx_AB_eq plane_def)
  have s: "size_idx idx_AB = 2" and d: "dom (polygons idx_AB) = {Str ''A'', Str ''B''}"
    by (auto simp: idx_AB_eq size_idx_def rtree_get_size_def)
  from save_load_round_trip [OF consistent_idx_AB o]
  have "length (save plane idx_AB) = size_idx idx_AB"
    and "fst (load plane Polygon_File_Index_init (save plane idx_AB)) = Inr ()"
    and "size_idx (snd (load plane Polygon_File_Index_init (save plane idx_AB))) = size_idx idx_AB"
    and "dom (polygons (snd (load plane Polygon_File_Index_init (save plane idx_AB)))) =
           dom (polygons idx_AB)"
    by (blast, blast, blast, blast)
  then show ?thesis by (simp add: s d)
qed

section \<open>Nearest\<close>

lemma nearest_loop_sound:
  "d \<in> set (fst (nearest_loop C s p ds)) \<Longrightarrow> d \<in> set ds \<and> holds_point C s p d"
proof (induction ds)
  case Nil
  then show ?case by simp
next
  case (Cons x ds)
  then show ?case
    by (auto simp: holds_point_def split: option.splits if_splits prod.splits)
qed

lemma nearest_loop_filter:
  "\<forall>d\<in>set ds. \<exists>k pl. d ''file'' = Some k \<and> polygons s k = Some pl \<Longrightarrow>
   nearest_loop C s p ds = (filter (holds_point C s p) ds, None)"
proof (induction ds)
  case Nil
  show ?case by simp
next
  case (Cons x ds)
  then obtain k pl where "x ''file'' = Some k" "polygons s k = Some pl" by auto
  with Cons show ?case by (simp add: holds_point_def)
qed

lemma rtree_nearest_subset: "set (rtree_nearest C t p k) \<subseteq> set t"
  by (auto simp: rtree_nearest_def Let_def)

lemma nearest_plane_A: "nearest plane idx_A (5, 5) = ([rec_A], None)"
  by (simp add: nearest_def rtree_nearest_def idx_A_eq rec_A_def plane_def square_def
      plane_intersects_Point_def)

lemma nearest_plane_A_far: "nearest plane idx_A (50, 50) = ([], None)"
  by (simp add: nearest_def rtree_nearest_def idx_A_eq rec_A_def plane_def square_def
      plane_intersects_Point_def)

text \<open>
  C6. Every record \<open>nearest\<close> yields is the object of one of the entries the tree's
  nearest-neighbour query returns for the point and \<open>k = 1\<close>, and the registry's polygon
  for its key meets the point; a record that is not among these candidates is not yielded,
  whether or not its polygon contains the point. On an index that satisfies the invariant
  \<open>nearest\<close> raises nothing and yields exactly the candidates whose polygon meets the
  point. With the single square from \<open>(0, 0)\<close> to \<open>(10, 10)\<close> stored, it yields the
  record for \<open>(5, 5)\<close> and nothing for \<open>(50, 50)\<close>.
\<close>

theorem nearest_candidates:
  "(\<forall>d\<in>set (fst (nearest C idx p)).
      d \<in> e_object ` set (rtree_nearest C (rtree idx) p 1) \<and> holds_point C idx p d) \<and>
   (\<forall>d. d \<notin> e_object ` set (rtree_nearest C (rtree idx) p 1) \<longrightarrow>
      d \<notin> set (fst (nearest C idx p))) \<and>
   (consistent C idx \<longrightarrow>
      nearest C idx p =
        (filter (holds_point C idx p) (map e_object (rtree_nearest C (rtree idx) p 1)), None)) \<and>
   nearest plane idx_A (5, 5) = ([rec_A], None) \<and>
   nearest plane idx_A (50, 50) = ([], None)"
proof -
  have sound: "d \<in> e_object ` set (rtree_nearest C (rtree idx) p 1) \<and> holds_point C idx p d"
    if "d \<in> set (fst (nearest C idx p))" for d
    using nearest_loop_sound [of d C idx p "map e_object (rtree_nearest C (rtree idx) p 1)"] that
    by (simp add: nearest_def)
  have "nearest C idx p =
        (filter (holds_point C idx p) (map e_object (rtree_nearest C (rtree idx) p 1)), None)"
    if c: "consistent C idx"
    unfolding nearest_def
  proof (rule nearest_loop_filter, rule ballI)
    fix d assume "d \<in> set (map e_object (rtree_nearest C (rtree idx) p 1))"
    then obtain e where e: "e \<in> set (rtree idx)" "d = e_object e"
      using rtree_nearest_subset [of C "rtree idx" p 1] by auto
    from entry_okD [OF consistent_entry_ok [OF c e(1)]] e(2)
    show "\<exists>k pl. d ''file'' = Some k \<and> polygons idx k = Some pl"
      by (auto simp: key_of_def)
  qed
  with sound nearest_plane_A nearest_plane_A_far show ?thesis by blast
qed

lemma idx_far_eq:
  "idx_far =
     \<lparr>polygons = [Str ''A'' \<mapsto> [(0, 0), (0, 10), (10, 10), (10, 0)],
                  Str ''B'' \<mapsto> [(20, 20), (20, 30), (30, 30), (30, 20)]],
      rtree = [\<lparr>e_id = 321, e_bbox = (100, 100, 110, 110), e_object = rec_A\<rparr>,
               \<lparr>e_id = 322, e_bbox = (20, 20, 30, 30), e_object = rec_B\<rparr>]\<rparr>"
  by (simp add: idx_far_def file_far_def load.simps check_data_def rec_A_def rec_B_def
      Polygon_File_Index_init_def rtree_insert_def plane_def square_def)

lemma rec_A_neq_rec_B: "rec_A \<noteq> rec_B"
proof
  assume "rec_A = rec_B"
  then have "rec_A ''file'' = rec_B ''file''" by simp
  then show False by (simp add: rec_A_def rec_B_def)
qed

text \<open>
  In the index loaded from \<open>file_far\<close> the polygon of \<open>A\<close> contains \<open>(5, 5)\<close>, but the
  box nearest to the point is the one of \<open>B\<close>, and \<open>A\<close> is not yielded.
\<close>

theorem nearest_candidates_witness:
  "rec_A \<in> set (fst (nearest plane idx_A (5, 5))) \<and>
   holds_point plane idx_A (5, 5) rec_A \<and>
   holds_point plane idx_far (5, 5) rec_A \<and>
   map e_object (rtree_nearest plane (rtree idx_far) (5, 5) 1) = [rec_B] \<and>
   rec_A \<notin> set (fst (nearest plane idx_far (5, 5)))"
proof -
  note A = nearest_candidates [of plane idx_A "(5, 5)"]
  from A have a: "rec_A \<in> set (fst (nearest plane idx_A (5, 5)))" by simp
  with A have h: "holds_point plane idx_A (5, 5) rec_A" by blast
  have hf: "holds_point plane idx_far (5, 5) rec_A"
    by (simp add: holds_point_def idx_far_eq rec_A_def plane_def square_def
        plane_intersects_Point_def)
  have c: "map e_object (rtree_nearest plane (rtree idx_far) (5, 5) 1) = [rec_B]"
    by (simp add: rtree_nearest_def idx_far_eq plane_def)
  then have "e_object ` set (rtree_nearest plane (rtree idx_far) (5, 5) 1) = {rec_B}"
    by (metis list.set_map list.simps(15) empty_set)
  with rec_A_neq_rec_B
  have "rec_A \<notin> e_object ` set (rtree_nearest plane (rtree idx_far) (5, 5) 1)" by simp
  with nearest_candidates [of plane idx_far "(5, 5)"]
  have "rec_A \<notin> set (fst (nearest plane idx_far (5, 5)))" by blast
  with a h hf c show ?thesis by simp
qed

section \<open>Intersect\<close>

lemma key_of_clipped: "key_of (clipped C s P e) = key_of e"
  by (auto simp: clipped_def key_of_def split: option.splits)

lemma intersect_loop_skip:
  assumes "key_of e = Some k" and "polygons s k = Some pl" and "\<not> survives C s P e"
  shows "intersect_loop C s P (e_object e # ds) res = intersect_loop C s P ds res"
  using assms by (auto simp: survives_def schnitt_of_def key_of_def Let_def)

lemma intersect_loop_keep:
  assumes "key_of e = Some k" and "polygons s k = Some pl" and "survives C s P e"
    and "polygons res k = None"
  shows "intersect_loop C s P (e_object e # ds) res =
           intersect_loop C s P ds
             (res\<lparr>polygons := (polygons res)(k \<mapsto>
                     Polygon C (exterior_coords C (intersection C P pl))),
                   rtree := rtree res @ [clipped C s P e]\<rparr>)"
proof -
  let ?d = "(e_object e)(''polygon'' \<mapsto> exterior_coords C (intersection C P pl))"
  have f: "?d ''file'' = Some k" using assms(1) by (simp add: key_of_def)
  have p: "?d ''polygon'' = Some (exterior_coords C (intersection C P pl))" by simp
  have c: "clipped C s P e =
             \<lparr>e_id = hash_string C k,
              e_bbox = bounds C (Polygon C (exterior_coords C (intersection C P pl))),
              e_object = ?d\<rparr>"
    using assms(1,2) by (simp add: clipped_def schnitt_of_def)
  have "intersect_loop C s P (e_object e # ds) res =
          (case insert_idx C res ?d of
             (Inl e, _) \<Rightarrow> Inl e
           | (Inr _, res') \<Rightarrow> intersect_loop C s P ds res')"
    using assms(1-3) by (simp add: survives_def schnitt_of_def key_of_def Let_def)
  also have "\<dots> = intersect_loop C s P ds
             (res\<lparr>polygons := (polygons res)(k \<mapsto>
                     Polygon C (exterior_coords C (intersection C P pl))),
                   rtree := rtree res @ [clipped C s P e]\<rparr>)"
    unfolding insert_idx_new [OF f p assms(4)] c by simp
  finally show ?thesis .
qed

lemma intersect_loop_Nil: "intersect_loop C s P [] res = Inr res"
  by simp

declare intersect_loop.simps [simp del]

lemma clipped_eq:
  "key_of e = Some k \<Longrightarrow> polygons s k = Some pl \<Longrightarrow>
   clipped C s P e =
     \<lparr>e_id = hash_string C k,
      e_bbox = bounds C (Polygon C (exterior_coords C (intersection C P pl))),
      e_object = (e_object e)(''polygon'' \<mapsto> exterior_coords C (intersection C P pl))\<rparr>"
  by (simp add: clipped_def schnitt_of_def)

lemma survives_eq:
  "key_of e = Some k \<Longrightarrow> polygons s k = Some pl \<Longrightarrow>
   survives C s P e =
     (\<not> geom_is_empty C (intersection C P pl) \<and> is_Polygon C (intersection C P pl))"
  by (simp add: survives_def schnitt_of_def)

lemma intersect_loop_result:
  assumes "distinct (map key_of es)"
    and "\<forall>e\<in>set es. \<exists>k pl. key_of e = Some k \<and> polygons s k = Some pl"
    and "\<forall>e\<in>set es. \<forall>k. key_of e = Some k \<longrightarrow> polygons res k = None"
    and "consistent C res"
  shows "\<exists>res'. intersect_loop C s P (map e_object es) res = Inr res' \<and>
           rtree res' = rtree res @ map (clipped C s P) (filter (survives C s P) es) \<and>
           consistent C res'"
  using assms
proof (induction es arbitrary: res)
  case Nil
  then show ?case by (simp add: intersect_loop_Nil)
next
  case (Cons e es)
  from Cons.prems(2) obtain k pl where k: "key_of e = Some k" "polygons s k = Some pl"
    by auto
  from Cons.prems(1) have d: "distinct (map key_of es)" and nk: "Some k \<notin> key_of ` set es"
    using k by simp_all
  from Cons.prems(2) have r: "\<forall>e\<in>set es. \<exists>k pl. key_of e = Some k \<and> polygons s k = Some pl"
    by simp
  show ?case
  proof (cases "survives C s P e")
    case False
    from Cons.prems(3) have "\<forall>e\<in>set es. \<forall>k. key_of e = Some k \<longrightarrow> polygons res k = None"
      by simp
    from Cons.IH [OF d r this Cons.prems(4)] False show ?thesis
      by (simp add: intersect_loop_skip [OF k False])
  next
    case True
    let ?v = "exterior_coords C (intersection C P pl)"
    let ?d = "(e_object e)(''polygon'' \<mapsto> ?v)"
    let ?res1 = "res\<lparr>polygons := (polygons res)(k \<mapsto> Polygon C ?v),
                     rtree := rtree res @ [clipped C s P e]\<rparr>"
    from Cons.prems(3) k have n: "polygons res k = None" by simp
    have f: "?d ''file'' = Some k" using k(1) by (simp add: key_of_def)
    have p: "?d ''polygon'' = Some ?v" by simp
    have c1: "consistent C ?res1"
      unfolding clipped_eq [OF k] by (rule consistent_add [OF Cons.prems(4) f p n])
    have n1: "\<forall>e\<in>set es. \<forall>k'. key_of e = Some k' \<longrightarrow> polygons ?res1 k' = None"
    proof (intro ballI allI impI)
      fix x k' assume x: "x \<in> set es" "key_of x = Some k'"
      with nk have "k' \<noteq> k" by force
      moreover from Cons.prems(3) x have "polygons res k' = None" by simp
      ultimately show "polygons ?res1 k' = None" by simp
    qed
    from Cons.IH [OF d r n1 c1] True show ?thesis
      by (simp add: intersect_loop_keep [OF k True n])
  qed
qed

text \<open>
  C5. On an index that satisfies the invariant, \<open>intersect\<close> returns, without an
  exception, a new index built from the empty one. Its tree holds, in the tree's order,
  one entry for every entry of the source whose box overlaps the bounds of the query
  polygon and whose intersection with the query polygon is not empty and is a polygon;
  the object of that entry is the object of the source with the field \<open>polygon\<close> replaced
  by the exterior coordinates of the intersection, and the new index satisfies the
  invariant, so its registry holds the polygons built from these coordinates. Entries
  whose intersection is empty or not a polygon have no entry in the result. For an empty
  source the result is the empty index.
\<close>

theorem intersect_clips:
  assumes "consistent C idx"
  shows "(rtree idx = [] \<longrightarrow> intersect C idx Q = Inr Polygon_File_Index_init) \<and>
         (\<exists>res. intersect C idx Q = Inr res \<and>
            rtree res =
              map (clipped C idx (Polygon C Q))
                (filter (survives C idx (Polygon C Q))
                  (rtree_intersection C (rtree idx) (bounds C (Polygon C Q)))) \<and>
            consistent C res) \<and>
         (\<forall>e\<in>set (rtree idx). \<exists>k pl.
            key_of e = Some k \<and> polygons idx k = Some pl \<and>
            survives C idx (Polygon C Q) e =
              (\<not> geom_is_empty C (intersection C (Polygon C Q) pl) \<and>
               is_Polygon C (intersection C (Polygon C Q) pl)) \<and>
            clipped C idx (Polygon C Q) e =
              \<lparr>e_id = hash_string C k,
               e_bbox = bounds C (Polygon C (exterior_coords C (intersection C (Polygon C Q) pl))),
               e_object = (e_object e)(''polygon'' \<mapsto>
                 exterior_coords C (intersection C (Polygon C Q) pl))\<rparr>)"
proof -
  let ?P = "Polygon C Q"
  let ?es = "rtree_intersection C (rtree idx) (bounds C ?P)"
  have reg: "\<exists>k pl. key_of e = Some k \<and> polygons idx k = Some pl"
    if "e \<in> set (rtree idx)" for e
    using entry_okD [OF consistent_entry_ok [OF assms that]] by blast
  have 1: "rtree idx = [] \<longrightarrow> intersect C idx Q = Inr Polygon_File_Index_init"
    by (simp add: intersect_def rtree_get_size_def Let_def)
  have d: "distinct (map key_of ?es)"
    using assms by (simp add: rtree_intersection_def consistent_def distinct_map_filter)
  have r: "\<forall>e\<in>set ?es. \<exists>k pl. key_of e = Some k \<and> polygons idx k = Some pl"
    using reg by (simp add: rtree_intersection_def)
  have n: "\<forall>e\<in>set ?es. \<forall>k. key_of e = Some k \<longrightarrow>
             polygons (Polygon_File_Index_init :: ('a, 'b, 'c) index) k = None"
    by (simp add: Polygon_File_Index_init_def)
  from intersect_loop_result [OF d r n consistent_init, where P = ?P]
  obtain res where res: "intersect_loop C idx ?P (map e_object ?es) Polygon_File_Index_init = Inr res"
    "rtree res = map (clipped C idx ?P) (filter (survives C idx ?P) ?es)" "consistent C res"
    by (auto simp: Polygon_File_Index_init_def)
  have 2: "\<exists>res. intersect C idx Q = Inr res \<and>
            rtree res = map (clipped C idx ?P) (filter (survives C idx ?P) ?es) \<and>
            consistent C res"
  proof (cases "rtree idx = []")
    case True
    then show ?thesis
      using 1 consistent_init [of C]
      by (simp add: rtree_intersection_def Polygon_File_Index_init_def)
  next
    case False
    with res show ?thesis
      by (simp add: intersect_def rtree_get_size_def Let_def)
  qed
  have 3: "\<exists>k pl. key_of e = Some k \<and> polygons idx k = Some pl \<and>
            survives C idx ?P e =
              (\<not> geom_is_empty C (intersection C ?P pl) \<and> is_Polygon C (intersection C ?P pl)) \<and>
            clipped C idx ?P e =
              \<lparr>e_id = hash_string C k,
               e_bbox = bounds C (Polygon C (exterior_coords C (intersection C ?P pl))),
               e_object = (e_object e)(''polygon'' \<mapsto> exterior_coords C (intersection C ?P pl))\<rparr>"
    if "e \<in> set (rtree idx)" for e
  proof -
    from reg [OF that] obtain k pl where k: "key_of e = Some k" "polygons idx k = Some pl"
      by blast
    from k survives_eq [OF k] clipped_eq [OF k] show ?thesis by blast
  qed
  from 1 2 3 show ?thesis by blast
qed

lemma idx_ABD_eq:
  "idx_ABD =
     \<lparr>polygons = [Str ''A'' \<mapsto> [(0, 0), (0, 10), (10, 10), (10, 0)],
                  Str ''B'' \<mapsto> [(20, 20), (20, 30), (30, 30), (30, 20)],
                  Str ''D'' \<mapsto> [(25, 25), (25, 35), (35, 35), (35, 25)]],
      rtree = [\<lparr>e_id = 321, e_bbox = (0, 0, 10, 10), e_object = rec_A\<rparr>,
               \<lparr>e_id = 322, e_bbox = (20, 20, 30, 30), e_object = rec_B\<rparr>,
               \<lparr>e_id = 324, e_bbox = (25, 25, 35, 35), e_object = rec_D\<rparr>]\<rparr>"
  by (simp add: idx_ABD_def insert_idx_def check_data_def rec_A_def rec_B_def rec_D_def
      Polygon_File_Index_init_def plane_def square_def rtree_insert_def hash_string_def Let_def)

lemma consistent_idx_ABD: "consistent plane idx_ABD"
  by (auto simp: idx_ABD_eq consistent_def entry_ok_def key_of_def rec_A_def rec_B_def rec_D_def
      square_def plane_def hash_string_def)

text \<open>
  The query square from 5 to 25 cuts \<open>A\<close> to the square from 5 to 10 and \<open>B\<close> to the
  square from 20 to 25; it meets \<open>D\<close> in the corner \<open>(25, 25)\<close> only, which is no polygon.
\<close>

theorem intersect_clips_witness:
  "\<exists>res. intersect plane idx_ABD (square 5 25) = Inr res \<and>
     size_idx idx_ABD = 3 \<and>
     size_idx res = 2 \<and>
     map key_of (rtree res) = [Some (Str ''A''), Some (Str ''B'')] \<and>
     map e_bbox (rtree res) = [(5, 5, 10, 10), (20, 20, 25, 25)] \<and>
     map (\<lambda>e. e_object e ''polygon'') (rtree res) =
       [Some (Coords [(5, 5), (5, 10), (10, 10), (10, 5), (5, 5)]),
        Some (Coords [(20, 20), (20, 25), (25, 25), (25, 20), (20, 20)])]"
proof -
  from intersect_clips [OF consistent_idx_ABD, of "square 5 25"]
  obtain res where r: "intersect plane idx_ABD (square 5 25) = Inr res"
    and t: "rtree res =
              map (clipped plane idx_ABD (Polygon plane (square 5 25)))
                (filter (survives plane idx_ABD (Polygon plane (square 5 25)))
                  (rtree_intersection plane (rtree idx_ABD)
                    (bounds plane (Polygon plane (square 5 25)))))"
    by blast
  have c: "rtree_intersection plane (rtree idx_ABD) (bounds plane (Polygon plane (square 5 25))) =
             rtree idx_ABD"
    by (simp add: rtree_intersection_def idx_ABD_eq plane_def square_def)
  have sA: "survives plane idx_ABD (Polygon plane (square 5 25))
              \<lparr>e_id = 321, e_bbox = (0, 0, 10, 10), e_object = rec_A\<rparr>"
    and sB: "survives plane idx_ABD (Polygon plane (square 5 25))
              \<lparr>e_id = 322, e_bbox = (20, 20, 30, 30), e_object = rec_B\<rparr>"
    and sD: "\<not> survives plane idx_ABD (Polygon plane (square 5 25))
              \<lparr>e_id = 324, e_bbox = (25, 25, 35, 35), e_object = rec_D\<rparr>"
    by (simp_all add: survives_def schnitt_of_def key_of_def idx_ABD_eq rec_A_def rec_B_def
        rec_D_def plane_def square_def plane_intersection_def)
  have t': "rtree res =
              [clipped plane idx_ABD (Polygon plane (square 5 25))
                 \<lparr>e_id = 321, e_bbox = (0, 0, 10, 10), e_object = rec_A\<rparr>,
               clipped plane idx_ABD (Polygon plane (square 5 25))
                 \<lparr>e_id = 322, e_bbox = (20, 20, 30, 30), e_object = rec_B\<rparr>]"
    unfolding t c using sA sB sD by (simp add: idx_ABD_eq)
  have "size_idx idx_ABD = 3"
    by (simp add: idx_ABD_eq size_idx_def rtree_get_size_def)
  moreover have "size_idx res = 2"
    by (simp add: t' size_idx_def rtree_get_size_def)
  moreover have "map key_of (rtree res) = [Some (Str ''A''), Some (Str ''B'')]"
    by (simp add: t' key_of_clipped) (simp add: key_of_def rec_A_def rec_B_def)
  moreover have "map e_bbox (rtree res) = [(5, 5, 10, 10), (20, 20, 25, 25)]"
    by (simp add: t' clipped_def schnitt_of_def key_of_def idx_ABD_eq rec_A_def rec_B_def
        plane_def square_def plane_intersection_def)
  moreover have "map (\<lambda>e. e_object e ''polygon'') (rtree res) =
       [Some (Coords [(5, 5), (5, 10), (10, 10), (10, 5), (5, 5)]),
        Some (Coords [(20, 20), (20, 25), (25, 25), (25, 20), (20, 20)])]"
    by (simp add: t' clipped_def schnitt_of_def key_of_def idx_ABD_eq rec_A_def rec_B_def
        plane_def square_def plane_intersection_def)
  ultimately show ?thesis using r by simp
qed

end
